theory Spec2Isabelle
  imports Main
begin

section \<open>Circuit breaker (src/resilience/CircuitBreaker.ts)\<close>

text \<open>
  One statistics record per circuit id, created lazily by \<open>getStats\<close>. Every method that
  reads the clock (\<open>Date.now()\<close>) takes the reading as the argument \<open>now\<close>; the map of
  circuits is passed in and returned updated. Emitted events do not influence the state
  and are left out. JavaScript numbers are modelled as integers (counters and millisecond
  time stamps).
\<close>

datatype CircuitBreakerState = Closed | Open | HalfOpen

record CircuitBreakerConfig =
  failureThreshold :: int
  resetTimeoutMs :: int
  monitoringPeriodMs :: "int option"

record CircuitBreakerStats =
  failures :: int
  successes :: int
  lastFailureTime :: int
  lastSuccessTime :: int
  state :: CircuitBreakerState

type_synonym circuits = "string \<rightharpoonup> CircuitBreakerStats"

definition defaultConfig :: CircuitBreakerConfig where
  "defaultConfig =
     \<lparr>failureThreshold = 5, resetTimeoutMs = 60000, monitoringPeriodMs = Some 10000\<rparr>"

text \<open>\<open>{ ...this.defaultConfig, ...config }\<close>: the fields of a given config win; the
  optional \<open>monitoringPeriodMs\<close> falls back to the default.\<close>

definition effectiveConfig :: "CircuitBreakerConfig option \<Rightarrow> CircuitBreakerConfig" where
  "effectiveConfig config =
     (case config of
        None \<Rightarrow> defaultConfig
      | Some c \<Rightarrow>
          \<lparr>failureThreshold = failureThreshold c,
           resetTimeoutMs = resetTimeoutMs c,
           monitoringPeriodMs =
             (case monitoringPeriodMs c of
                None \<Rightarrow> monitoringPeriodMs defaultConfig
              | Some m \<Rightarrow> Some m)\<rparr>)"

definition freshStats :: CircuitBreakerStats where
  "freshStats =
     \<lparr>failures = 0, successes = 0, lastFailureTime = 0, lastSuccessTime = 0,
      state = Closed\<rparr>"

definition getStats :: "circuits \<Rightarrow> string \<Rightarrow> CircuitBreakerStats \<times> circuits" where
  "getStats cb circuitId =
     (case cb circuitId of
        None \<Rightarrow> (freshStats, cb(circuitId \<mapsto> freshStats))
      | Some stats \<Rightarrow> (stats, cb))"

definition getState :: "circuits \<Rightarrow> string \<Rightarrow> CircuitBreakerState" where
  "getState cb circuitId = state (fst (getStats cb circuitId))"

definition transitionToOpen :: "circuits \<Rightarrow> string \<Rightarrow> circuits" where
  "transitionToOpen cb circuitId =
     (let (stats, cb1) = getStats cb circuitId
      in cb1(circuitId \<mapsto> stats\<lparr>state := Open\<rparr>))"

definition transitionToClosed :: "circuits \<Rightarrow> string \<Rightarrow> circuits" where
  "transitionToClosed cb circuitId =
     (let (stats, cb1) = getStats cb circuitId
      in cb1(circuitId \<mapsto> stats\<lparr>state := Closed, failures := 0\<rparr>))"

definition transitionToHalfOpen :: "circuits \<Rightarrow> string \<Rightarrow> circuits" where
  "transitionToHalfOpen cb circuitId =
     (let (stats, cb1) = getStats cb circuitId
      in cb1(circuitId \<mapsto> stats\<lparr>state := HalfOpen\<rparr>))"

definition isOpen ::
  "circuits \<Rightarrow> string \<Rightarrow> CircuitBreakerConfig option \<Rightarrow> int \<Rightarrow> bool \<times> circuits" where
  "isOpen cb circuitId config now =
     (let (stats, cb1) = getStats cb circuitId;
          effective = effectiveConfig config
      in if state stats = Open then
           (let timeSinceLastFailure = now - lastFailureTime stats
            in if timeSinceLastFailure \<ge> resetTimeoutMs effective
               then (False, transitionToHalfOpen cb1 circuitId)
               else (True, cb1))
         else (False, cb1))"

definition recordSuccess :: "circuits \<Rightarrow> string \<Rightarrow> int \<Rightarrow> circuits" where
  "recordSuccess cb circuitId now =
     (let (stats, cb1) = getStats cb circuitId;
          stats1 = stats\<lparr>successes := successes stats + 1, lastSuccessTime := now\<rparr>;
          cb2 = cb1(circuitId \<mapsto> stats1)
      in if state stats1 = HalfOpen then transitionToClosed cb2 circuitId
         else if state stats1 = Open then transitionToClosed cb2 circuitId
         else cb2)"

definition recordFailure ::
  "circuits \<Rightarrow> string \<Rightarrow> CircuitBreakerConfig option \<Rightarrow> int \<Rightarrow> circuits" where
  "recordFailure cb circuitId config now =
     (let (stats, cb1) = getStats cb circuitId;
          effective = effectiveConfig config;
          stats1 = stats\<lparr>failures := failures stats + 1, lastFailureTime := now\<rparr>;
          cb2 = cb1(circuitId \<mapsto> stats1)
      in if state stats1 = Closed \<and> failures stats1 \<ge> failureThreshold effective
         then transitionToOpen cb2 circuitId
         else if state stats1 = HalfOpen then transitionToOpen cb2 circuitId
         else cb2)"

text \<open>The failure counter of a circuit, read the way \<open>getStats(id).failures\<close> reads it.\<close>

definition failureCount :: "circuits \<Rightarrow> string \<Rightarrow> int" where
  "failureCount cb circuitId = failures (fst (getStats cb circuitId))"

subsection \<open>Traces of outcomes recorded on one circuit\<close>

datatype outcome = Success | Failure

text \<open>Recording a list of call outcomes on one circuit, all with the same config; the
  clock reading of the i-th call is \<open>now + i\<close>.\<close>

fun recordAll ::
  "circuits \<Rightarrow> string \<Rightarrow> CircuitBreakerConfig option \<Rightarrow> int \<Rightarrow> outcome list \<Rightarrow> circuits" where
  "recordAll cb circuitId config now [] = cb"
| "recordAll cb circuitId config now (Success # os) =
     recordAll (recordSuccess cb circuitId now) circuitId config (now + 1) os"
| "recordAll cb circuitId config now (Failure # os) =
     recordAll (recordFailure cb circuitId config now) circuitId config (now + 1) os"

text \<open>The spec's counter, written from its words: the number of failures since the last
  success, that is the length of the trailing run of failures.\<close>

definition consecutiveFailures :: "outcome list \<Rightarrow> int" where
  "consecutiveFailures os = int (length (takeWhile (\<lambda>x. x = Failure) (rev os)))"

text \<open>What the code counts while a circuit stays closed: every failure of the trace.\<close>

definition totalFailures :: "outcome list \<Rightarrow> int" where
  "totalFailures os = int (length (filter (\<lambda>x. x = Failure) os))"

text \<open>A circuit that opened at time 1000 after five failures.\<close>

definition openedCircuit :: circuits where
  "openedCircuit =
     Map.empty(''fetchMake'' \<mapsto>
       \<lparr>failures = 5, successes = 2, lastFailureTime = 1000, lastSuccessTime = 400,
        state = Open\<rparr>)"


text \<open>A config with threshold 2, as a caller passes it to \<open>recordFailure\<close>.\<close>

definition thresholdTwo :: "CircuitBreakerConfig option" where
  "thresholdTwo =
     Some \<lparr>failureThreshold = 2, resetTimeoutMs = 60000, monitoringPeriodMs = None\<rparr>"

section \<open>Retry manager (src/resilience/RetryManager.ts)\<close>

text \<open>
  \<open>execute\<close> calls the operation in a loop \<open>for (attempt = 0; attempt <= config.max;
  attempt++)\<close>. The operation is a promise-returning closure whose outcome may differ
  from call to call, so it is modelled by the outcome of its i-th invocation
  (\<open>Inl\<close> a rejection, \<open>Inr\<close> a value). The run returns what the caller gets (\<open>Inl\<close> the
  thrown \<open>lastError\<close>, which is \<open>undefined\<close>, here \<open>None\<close>, when the loop body never
  ran), the number of invocations of the operation, and the delays handed to \<open>sleep\<close>
  in order. The bookkeeping map \<open>retryAttempts\<close> and the emitted events do not
  influence the run and are left out.
\<close>

datatype RetryStrategy = Exponential | Fixed | Linear

record IRetryConfig =
  max_retries :: int  \<comment> \<open>the field \<open>max\<close>\<close>
  strategy :: RetryStrategy
  backoffMs :: "int option"

record ('e, 'a) RetryRun =
  settled :: "'e option + 'a"
  invoked :: nat
  sleeps :: "int list"

text \<open>\<open>config.backoffMs || 1000\<close>: a missing and a zero \<open>backoffMs\<close> both give 1000.\<close>

definition baseDelay :: "IRetryConfig \<Rightarrow> int" where
  "baseDelay config =
     (case backoffMs config of None \<Rightarrow> 1000 | Some b \<Rightarrow> if b = 0 then 1000 else b)"

text \<open>\<open>calculateDelay\<close> is only called with \<open>attempt > 0\<close>, so \<open>Math.pow(2, attempt - 1)\<close>
  is a power of two with a natural exponent.\<close>

definition calculateDelay :: "IRetryConfig \<Rightarrow> nat \<Rightarrow> int" where
  "calculateDelay config attempt =
     (case strategy config of
        Exponential \<Rightarrow> baseDelay config * 2 ^ (attempt - 1)
      | Linear \<Rightarrow> baseDelay config * int attempt
      | Fixed \<Rightarrow> baseDelay config)"

text \<open>\<open>shouldRetry && !shouldRetry(error)\<close>: without a classifier every error is retried.\<close>

definition abortsRetry :: "('e \<Rightarrow> bool) option \<Rightarrow> 'e \<Rightarrow> bool" where
  "abortsRetry shouldRetry e = (case shouldRetry of None \<Rightarrow> False | Some f \<Rightarrow> \<not> f e)"

function retryLoop ::
  "(nat \<Rightarrow> 'e + 'a) \<Rightarrow> IRetryConfig \<Rightarrow> ('e \<Rightarrow> bool) option \<Rightarrow> nat \<Rightarrow> 'e option \<Rightarrow> int list
   \<Rightarrow> ('e, 'a) RetryRun" where
  "retryLoop operation config shouldRetry attempt lastError slept =
     (if int attempt \<le> max_retries config then
        (let slept1 = (if attempt > 0 then slept @ [calculateDelay config attempt] else slept)
         in case operation attempt of
              Inr v \<Rightarrow> \<lparr>settled = Inr v, invoked = attempt + 1, sleeps = slept1\<rparr>
            | Inl e \<Rightarrow>
                if abortsRetry shouldRetry e
                then \<lparr>settled = Inl (Some e), invoked = attempt + 1, sleeps = slept1\<rparr>
                else if int attempt \<ge> max_retries config
                then \<lparr>settled = Inl (Some e), invoked = attempt + 1, sleeps = slept1\<rparr>
                else retryLoop operation config shouldRetry (attempt + 1) (Some e) slept1)
      else \<lparr>settled = Inl lastError, invoked = attempt, sleeps = slept\<rparr>)"
  by pat_completeness auto
termination
  by (relation "measure (\<lambda>(operation, config, shouldRetry, attempt, lastError, slept).
        nat (max_retries config + 1 - int attempt))") auto

definition execute ::
  "(nat \<Rightarrow> 'e + 'a) \<Rightarrow> IRetryConfig \<Rightarrow> ('e \<Rightarrow> bool) option \<Rightarrow> ('e, 'a) RetryRun" where
  "execute operation config shouldRetry = retryLoop operation config shouldRetry 0 None []"

text \<open>An operation that times out once and then answers, and a policy with one retry,
  fixed strategy and a zero backoff.\<close>

definition flakyOnce :: "nat \<Rightarrow> string + string" where
  "flakyOnce i = (if i = 0 then Inl ''timeout'' else Inr ''ok'')"

definition zeroBackoff :: IRetryConfig where
  "zeroBackoff = \<lparr>max_retries = 1, strategy = Fixed, backoffMs = Some 0\<rparr>"

text \<open>An operation that always fails, numbering its errors, and an exponential policy
  with three retries of base 100ms.\<close>

definition alwaysFails :: "nat \<Rightarrow> nat + string" where
  "alwaysFails i = Inl i"

definition threeRetries :: IRetryConfig where
  "threeRetries = \<lparr>max_retries = 3, strategy = Exponential, backoffMs = Some 100\<rparr>"

text \<open>A policy with a negative \<open>max\<close>.\<close>

definition negativeMax :: IRetryConfig where
  "negativeMax = \<lparr>max_retries = -1, strategy = Fixed, backoffMs = Some 100\<rparr>"

section \<open>JavaScript values\<close>

text \<open>
  Cached values, state documents and result payloads are JavaScript values of type
  \<open>any\<close>. The model covers the values a JSON document is made of, \<open>undefined\<close>, and the
  one thing property assignment can add to them: an array is an object, so besides its
  elements it may carry further own properties. Objects are association lists in
  insertion order. Numbers are integers in the model (\<open>NaN\<close> and fractions do not occur);
  functions, dates and class instances are outside it, and so are the members an object
  inherits from its prototype.
\<close>

datatype jsval =
    JUndefined
  | JNull
  | JBool bool
  | JNum int
  | JStr string
  | JArr "jsval list" "(string \<times> jsval) list"
  | JObj "(string \<times> jsval) list"

text \<open>Truthiness, as \<open>||\<close>, \<open>&&\<close> and \<open>if\<close> test it.\<close>

fun truthy :: "jsval \<Rightarrow> bool" where
  "truthy JUndefined = False"
| "truthy JNull = False"
| "truthy (JBool b) = b"
| "truthy (JNum n) = (n \<noteq> 0)"
| "truthy (JStr s) = (s \<noteq> [])"
| "truthy (JArr es ps) = True"
| "truthy (JObj kvs) = True"

text \<open>\<open>JSON.parse(JSON.stringify(v))\<close> for a value stored as a property: \<open>undefined\<close>
  elements of an array come back as \<open>null\<close>, properties of an object whose value is
  \<open>undefined\<close> are dropped, and so are the extra properties of an array.\<close>

primrec jsonRoundTrip :: "jsval \<Rightarrow> jsval" where
  "jsonRoundTrip JUndefined = JUndefined"
| "jsonRoundTrip JNull = JNull"
| "jsonRoundTrip (JBool b) = JBool b"
| "jsonRoundTrip (JNum n) = JNum n"
| "jsonRoundTrip (JStr s) = JStr s"
| "jsonRoundTrip (JArr es ps) =
     JArr (map (\<lambda>x. if x = JUndefined then JNull else x) (map jsonRoundTrip es)) []"
| "jsonRoundTrip (JObj kvs) =
     JObj (filter (\<lambda>kv. snd kv \<noteq> JUndefined) (map (map_prod id jsonRoundTrip) kvs))"

section \<open>Cache manager (src/resilience/CacheManager.ts)\<close>

text \<open>
  Three tiers. The in-memory tier is an instance of the third-party package
  \<open>node-cache\<close>, which is not part of the repository; its \<open>set\<close> and \<open>get\<close> are modelled
  below from the package's behaviour under the options the constructor passes
  (\<open>useClones: false\<close>, \<open>deleteOnExpire: true\<close>). The two storage tiers are the browser's
  \<open>localStorage\<close> and \<open>sessionStorage\<close>, reachable only when \<open>window\<close> is defined; their
  \<open>setItem\<close> can throw when the quota is used up, which is the flag \<open>storageWritable\<close>.
\<close>

datatype CacheStrategy = Memory | LocalStorage | SessionStorage

datatype CacheEvent = Hit | Miss

record CacheEntry =
  "value" :: jsval
  ttl :: int
  createdAt :: int
  accessCount :: int
  lastAccessed :: int

text \<open>What a storage item holds: the empty string, text that \<open>JSON.parse\<close> rejects, or
  the serialised entry that \<open>setToLocalStorage\<close> or \<open>setToSessionStorage\<close> wrote.\<close>

datatype StorageItem = EmptyString | Unparseable | Serialized CacheEntry

text \<open>A wrapped value of \<open>node-cache\<close>: the value and the time \<open>t\<close> at which it expires,
  0 for never.\<close>

record NodeCacheData =
  data_v :: jsval  \<comment> \<open>the field \<open>v\<close>\<close>
  data_t :: int  \<comment> \<open>the field \<open>t\<close>\<close>

record CacheManager =
  memoryCache :: "string \<rightharpoonup> NodeCacheData"
  windowDefined :: bool
  storageWritable :: bool
  localStorage :: "string \<rightharpoonup> StorageItem"
  sessionStorage :: "string \<rightharpoonup> StorageItem"

definition localStoragePrefix :: string where
  "localStoragePrefix = ''halo_cache_''"

definition sessionStoragePrefix :: string where
  "sessionStoragePrefix = ''halo_session_cache_''"

subsection \<open>The in-memory tier\<close>

text \<open>\<open>memoryCache.set(key, value, ttl)\<close>: a ttl of 0 means no expiry, any other ttl
  expires at \<open>now + ttl * 1000\<close>.\<close>

definition nodeCacheSet ::
  "(string \<rightharpoonup> NodeCacheData) \<Rightarrow> string \<Rightarrow> jsval \<Rightarrow> int \<Rightarrow> int \<Rightarrow> (string \<rightharpoonup> NodeCacheData)" where
  "nodeCacheSet cache key val ttlSeconds now =
     cache(key \<mapsto> \<lparr>data_v = val, data_t = (if ttlSeconds = 0 then 0 else now + ttlSeconds * 1000)\<rparr>)"

text \<open>\<open>memoryCache.get(key)\<close>: an entry whose time is up (\<open>t \<noteq> 0\<close> and \<open>t < now\<close>) is
  deleted and \<open>undefined\<close> is returned, as for a key that is not there.\<close>

definition nodeCacheGet ::
  "(string \<rightharpoonup> NodeCacheData) \<Rightarrow> string \<Rightarrow> int \<Rightarrow> jsval \<times> (string \<rightharpoonup> NodeCacheData)" where
  "nodeCacheGet cache key now =
     (case cache key of
        None \<Rightarrow> (JUndefined, cache)
      | Some d \<Rightarrow>
          if data_t d \<noteq> 0 \<and> data_t d < now then (JUndefined, cache(key := None))
          else (data_v d, cache))"

subsection \<open>The storage tiers\<close>

definition getFromLocalStorage :: "CacheManager \<Rightarrow> string \<Rightarrow> int \<Rightarrow> jsval \<times> CacheManager" where
  "getFromLocalStorage cm key now =
     (if \<not> windowDefined cm then (JNull, cm)
      else case localStorage cm (localStoragePrefix @ key) of
             None \<Rightarrow> (JNull, cm)
           | Some EmptyString \<Rightarrow> (JNull, cm)
           | Some Unparseable \<Rightarrow>
               (JNull, cm\<lparr>localStorage := (localStorage cm)(localStoragePrefix @ key := None)\<rparr>)
           | Some (Serialized entry) \<Rightarrow>
               if now > createdAt entry + ttl entry * 1000
               then (JNull,
                     cm\<lparr>localStorage := (localStorage cm)(localStoragePrefix @ key := None)\<rparr>)
               else if storageWritable cm
               then (value entry,
                     cm\<lparr>localStorage := (localStorage cm)(localStoragePrefix @ key \<mapsto>
                          Serialized (entry\<lparr>accessCount := accessCount entry + 1,
                                             lastAccessed := now\<rparr>))\<rparr>)
               else (JNull,
                     cm\<lparr>localStorage := (localStorage cm)(localStoragePrefix @ key := None)\<rparr>))"

definition setToLocalStorage ::
  "CacheManager \<Rightarrow> string \<Rightarrow> jsval \<Rightarrow> int \<Rightarrow> int \<Rightarrow> bool \<times> CacheManager" where
  "setToLocalStorage cm key val ttlSeconds now =
     (if \<not> windowDefined cm then (False, cm)
      else if storageWritable cm
      then (True,
            cm\<lparr>localStorage := (localStorage cm)(localStoragePrefix @ key \<mapsto>
                 Serialized \<lparr>value = jsonRoundTrip val, ttl = ttlSeconds, createdAt = now,
                             accessCount = 0, lastAccessed = now\<rparr>)\<rparr>)
      else (False, cm))"

definition getFromSessionStorage :: "CacheManager \<Rightarrow> string \<Rightarrow> int \<Rightarrow> jsval \<times> CacheManager" where
  "getFromSessionStorage cm key now =
     (if \<not> windowDefined cm then (JNull, cm)
      else case sessionStorage cm (sessionStoragePrefix @ key) of
             None \<Rightarrow> (JNull, cm)
           | Some EmptyString \<Rightarrow> (JNull, cm)
           | Some Unparseable \<Rightarrow>
               (JNull,
                cm\<lparr>sessionStorage := (sessionStorage cm)(sessionStoragePrefix @ key := None)\<rparr>)
           | Some (Serialized entry) \<Rightarrow>
               if now > createdAt entry + ttl entry * 1000
               then (JNull,
                     cm\<lparr>sessionStorage :=
                          (sessionStorage cm)(sessionStoragePrefix @ key := None)\<rparr>)
               else (value entry, cm))"

definition setToSessionStorage ::
  "CacheManager \<Rightarrow> string \<Rightarrow> jsval \<Rightarrow> int \<Rightarrow> int \<Rightarrow> bool \<times> CacheManager" where
  "setToSessionStorage cm key val ttlSeconds now =
     (if \<not> windowDefined cm then (False, cm)
      else if storageWritable cm
      then (True,
            cm\<lparr>sessionStorage := (sessionStorage cm)(sessionStoragePrefix @ key \<mapsto>
                 Serialized \<lparr>value = jsonRoundTrip val, ttl = ttlSeconds, createdAt = now,
                             accessCount = 0, lastAccessed = now\<rparr>)\<rparr>)
      else (False, cm))"

subsection \<open>\<open>get\<close> and \<open>set\<close>\<close>

text \<open>\<open>get\<close> returns the value handed to the caller, the event it emits (\<open>hit\<close> or
  \<open>miss\<close>) and the manager after the call. In the memory branch the result of the
  library is passed through \<open>|| null\<close>.\<close>

definition cacheGet ::
  "CacheManager \<Rightarrow> string \<Rightarrow> CacheStrategy \<Rightarrow> int \<Rightarrow> jsval \<times> CacheEvent \<times> CacheManager" where
  "cacheGet cm key strat now =
     (let (val, cm1) =
            (case strat of
               Memory \<Rightarrow>
                 (let (found, cache1) = nodeCacheGet (memoryCache cm) key now
                  in (if truthy found then found else JNull, cm\<lparr>memoryCache := cache1\<rparr>))
             | LocalStorage \<Rightarrow> getFromLocalStorage cm key now
             | SessionStorage \<Rightarrow> getFromSessionStorage cm key now)
      in if val \<noteq> JNull then (val, Hit, cm1) else (JNull, Miss, cm1))"

definition cacheSet ::
  "CacheManager \<Rightarrow> string \<Rightarrow> jsval \<Rightarrow> int \<Rightarrow> CacheStrategy \<Rightarrow> int \<Rightarrow> bool \<times> CacheManager" where
  "cacheSet cm key val ttlSeconds strat now =
     (case strat of
        Memory \<Rightarrow> (True, cm\<lparr>memoryCache := nodeCacheSet (memoryCache cm) key val ttlSeconds now\<rparr>)
      | LocalStorage \<Rightarrow> setToLocalStorage cm key val ttlSeconds now
      | SessionStorage \<Rightarrow> setToSessionStorage cm key val ttlSeconds now)"

text \<open>The value and the event of a \<open>get\<close>, and the manager it leaves.\<close>

definition gotValue :: "jsval \<times> CacheEvent \<times> CacheManager \<Rightarrow> jsval" where
  "gotValue r = fst r"

definition gotEvent :: "jsval \<times> CacheEvent \<times> CacheManager \<Rightarrow> CacheEvent" where
  "gotEvent r = fst (snd r)"

definition gotManager :: "jsval \<times> CacheEvent \<times> CacheManager \<Rightarrow> CacheManager" where
  "gotManager r = snd (snd r)"

text \<open>An empty manager outside a browser.\<close>

definition emptyCache :: CacheManager where
  "emptyCache =
     \<lparr>memoryCache = Map.empty, windowDefined = False, storageWritable = True,
      localStorage = Map.empty, sessionStorage = Map.empty\<rparr>"

text \<open>An empty manager in a browser.\<close>

definition browserCache :: CacheManager where
  "browserCache = emptyCache\<lparr>windowDefined := True\<rparr>"

section \<open>Rate limiter (src/resilience/RateLimiter.ts)\<close>



















section \<open>Orchestrator (src/executors/ToolOrchestrator.ts, src/core/base/ToolExecutor.base.ts)\<close>

text \<open>
  The orchestrator looks a tool up in the registry and hands it to the executor of its
  type. What an executor does with a tool (\<open>validateTool\<close> followed by
  \<open>executeInternal\<close>: the remote call, the host function, the state operation) is a
  parameter of the model: a function from the tool, the context and the state of the
  world outside the orchestrator to either a thrown error or a result, and the next
  state of the world. Of a result the orchestrator reads \<open>success\<close> and \<open>data\<close>; the
  measurements \<open>executionTime\<close>, \<open>cached\<close> and \<open>retryCount\<close> are left out. Errors are
  their messages.
\<close>

datatype ToolType = Server | Client | System | UnknownType

record ITool =
  toolId :: string  \<comment> \<open>the field \<open>id\<close>\<close>
  toolType :: ToolType  \<comment> \<open>the field \<open>type\<close>\<close>

record IToolResult =
  success :: bool
  resultData :: jsval  \<comment> \<open>the optional field \<open>data\<close>\<close>
  resultError :: "string option"  \<comment> \<open>the optional field \<open>error\<close>\<close>

datatype TriggeredBy = Lifecycle | Dependency | Manual

record IToolExecutionContext =
  contextToolId :: string
  instanceId :: string
  startTime :: int
  triggeredBy :: TriggeredBy
  contextState :: jsval  \<comment> \<open>the field \<open>state\<close>\<close>
  previousResults :: jsval
  metadata :: jsval

type_synonym 'w internal =
  "ITool \<Rightarrow> IToolExecutionContext \<Rightarrow> 'w \<Rightarrow> (string + IToolResult) \<times> 'w"

record 'w ToolOrchestrator =
  registry :: "string \<rightharpoonup> ITool"
  serverEnabled :: bool
  clientEnabled :: bool
  systemEnabled :: bool
  executeInternal :: "'w internal"

subsection \<open>Object spread\<close>

function decimal :: "nat \<Rightarrow> string" where
  "decimal n =
     (if n < 10 then [char_of (48 + n)] else decimal (n div 10) @ [char_of (48 + n mod 10)])"
  by pat_completeness auto
termination
  by (relation "measure id") auto

text \<open>The own enumerable properties that \<open>{ ...x }\<close> copies: those of an object, the
  elements of an array under their indices followed by its other properties, the
  characters of a string under their indices, and nothing for any other value.\<close>

fun ownProperties :: "jsval \<Rightarrow> (string \<times> jsval) list" where
  "ownProperties (JObj kvs) = kvs"
| "ownProperties (JArr es ps) = map (\<lambda>(i, e). (decimal i, e)) (enumerate 0 es) @ ps"
| "ownProperties (JStr s) = map (\<lambda>(i, c). (decimal i, JStr [c])) (enumerate 0 s)"
| "ownProperties other = []"

text \<open>Assigning a property keeps the position of a key that is there and appends a new
  key.\<close>

fun assignProperty :: "(string \<times> jsval) list \<Rightarrow> string \<times> jsval \<Rightarrow> (string \<times> jsval) list" where
  "assignProperty [] (k, x) = [(k, x)]"
| "assignProperty ((k', x') # kvs) (k, x) =
     (if k' = k then (k, x) # kvs else (k', x') # assignProperty kvs (k, x))"

text \<open>\<open>{ ...a, ...b }\<close>.\<close>

definition spread :: "jsval \<Rightarrow> jsval \<Rightarrow> jsval" where
  "spread a b = JObj (foldl assignProperty (foldl assignProperty [] (ownProperties a))
                       (ownProperties b))"

subsection \<open>Executing one tool\<close>

text \<open>\<open>BaseToolExecutor.execute\<close>: a disabled executor throws; whatever validation or
  the execution itself throws is caught and returned as a failed result.\<close>

definition executorExecute ::
  "bool \<Rightarrow> 'w internal \<Rightarrow> ITool \<Rightarrow> IToolExecutionContext \<Rightarrow> 'w \<Rightarrow> (string + IToolResult) \<times> 'w" where
  "executorExecute enabled run tool context w =
     (if \<not> enabled then (Inl ''Executor cannot handle tool type'', w)
      else case run tool context w of
             (Inr r, w1) \<Rightarrow> (Inr r, w1)
           | (Inl err, w1) \<Rightarrow>
               (Inr \<lparr>success = False, resultData = JUndefined, resultError = Some err\<rparr>, w1))"

definition executeTool ::
  "'w ToolOrchestrator \<Rightarrow> string \<Rightarrow> IToolExecutionContext \<Rightarrow> 'w \<Rightarrow> (string + IToolResult) \<times> 'w" where
  "executeTool orch tid context w =
     (case registry orch tid of
        None \<Rightarrow> (Inl (''Tool not found: '' @ tid), w)
      | Some tool \<Rightarrow>
          (case toolType tool of
             Server \<Rightarrow> executorExecute (serverEnabled orch) (executeInternal orch) tool context w
           | Client \<Rightarrow> executorExecute (clientEnabled orch) (executeInternal orch) tool context w
           | System \<Rightarrow> executorExecute (systemEnabled orch) (executeInternal orch) tool context w
           | UnknownType \<Rightarrow> (Inl ''Unknown tool type'', w)))"

subsection \<open>\<open>executeSequence\<close>\<close>

text \<open>The result of a run: the \<open>results\<close> array, the calls of \<open>executeTool\<close> that were
  made, in order, each with the context it was given, and the world after the run.\<close>

record 'w SequenceRun =
  runResults :: "IToolResult list"
  runCalls :: "(string \<times> IToolExecutionContext) list"
  runWorld :: 'w

fun sequenceLoop ::
  "'w ToolOrchestrator \<Rightarrow> string list \<Rightarrow> IToolExecutionContext \<Rightarrow> bool \<Rightarrow> 'w SequenceRun
   \<Rightarrow> 'w SequenceRun" where
  "sequenceLoop orch [] currentContext continueOnError run = run"
| "sequenceLoop orch (tid # tids) currentContext continueOnError run =
     (case executeTool orch tid currentContext (runWorld run) of
        (Inr result, w1) \<Rightarrow>
          (let run1 = \<lparr>runResults = runResults run @ [result],
                       runCalls = runCalls run @ [(tid, currentContext)], runWorld = w1\<rparr>;
               nextContext =
                 (if success result \<and> truthy (resultData result)
                  then currentContext
                         \<lparr>contextState := spread (contextState currentContext) (resultData result),
                          previousResults := resultData result\<rparr>
                  else currentContext)
           in sequenceLoop orch tids nextContext continueOnError run1)
      | (Inl err, w1) \<Rightarrow>
          (let run1 = \<lparr>runResults = runResults run
                          @ [\<lparr>success = False, resultData = JUndefined, resultError = Some err\<rparr>],
                       runCalls = runCalls run @ [(tid, currentContext)], runWorld = w1\<rparr>
           in if \<not> continueOnError then run1
              else sequenceLoop orch tids currentContext continueOnError run1))"

definition executeSequence ::
  "'w ToolOrchestrator \<Rightarrow> string list \<Rightarrow> IToolExecutionContext \<Rightarrow> bool \<Rightarrow> 'w \<Rightarrow> 'w SequenceRun" where
  "executeSequence orch toolIds initialContext continueOnError w =
     sequenceLoop orch toolIds initialContext continueOnError
       \<lparr>runResults = [], runCalls = [], runWorld = w\<rparr>"

subsection \<open>Two server tools\<close>

text \<open>\<open>fetchMake\<close> fails with a network error that its executor catches; \<open>fetchModel\<close>
  answers. The world counts the executions.\<close>

definition makeThenModel :: "nat ToolOrchestrator" where
  "makeThenModel =
     \<lparr>registry = [''fetchMake'' \<mapsto> \<lparr>toolId = ''fetchMake'', toolType = Server\<rparr>,
                  ''fetchModel'' \<mapsto> \<lparr>toolId = ''fetchModel'', toolType = Server\<rparr>],
      serverEnabled = True, clientEnabled = True, systemEnabled = True,
      executeInternal = (\<lambda>tool context n.
        if toolId tool = ''fetchMake'' then (Inl ''Network Error'', n + 1)
        else (Inr \<lparr>success = True, resultData = JObj [(''model'', JStr ''Corolla'')],
                   resultError = None\<rparr>, n + 1))\<rparr>"

definition launchContext :: IToolExecutionContext where
  "launchContext =
     \<lparr>contextToolId = ''sequence'', instanceId = ''run_1'', startTime = 0,
      triggeredBy = Manual, contextState = JObj [(''year'', JNum 2020)],
      previousResults = JUndefined, metadata = JUndefined\<rparr>"

section \<open>Request deduplicator (src/resilience/RequestDeduplicator.ts)\<close>

text \<open>
  \<open>execute\<close> is an \<open>async\<close> function on a single-threaded event loop. Its body runs
  synchronously up to \<open>await this.checkAndWait(key)\<close>. \<open>checkAndWait\<close> contains no
  \<open>await\<close>: it either pushes a resolver for the caller onto the pending request of the
  key, or returns \<open>null\<close>. In both cases \<open>execute\<close> is suspended at its \<open>await\<close>, since an
  \<open>await\<close> always yields, also on a promise that is already resolved; the rest of its
  body (calling the operation and \<open>registerRequest\<close>) runs later as a microtask, after
  the synchronous code that called \<open>execute\<close> has finished.

  The model keeps the map of pending requests, the queue of suspended \<open>execute\<close> calls,
  the invocations of the operation made so far (each returns a promise, named by its
  position in that list), the promises on which \<open>registerRequest\<close> has put completion
  handlers, and what the promise returned to each caller has settled with. Callers are
  numbered. A rejection carries a JavaScript value, a result is an \<open>IToolResult\<close> object
  and so truthy.
\<close>

record PendingRequest =
  requestPromise :: nat  \<comment> \<open>the field \<open>promise\<close>: the invocation that produced it\<close>
  requestTimestamp :: int
  resolvers :: "nat list"  \<comment> \<open>the callers waiting on this request\<close>

record 'r RequestDeduplicator =
  pendingRequests :: "string \<rightharpoonup> PendingRequest"
  suspended :: "(nat \<times> string) list"
  started :: "(string \<times> nat) list"
  completionHandlers :: "nat \<rightharpoonup> string"
  received :: "nat \<rightharpoonup> (jsval + 'r)"

definition newDeduplicator :: "'r RequestDeduplicator" where
  "newDeduplicator =
     \<lparr>pendingRequests = Map.empty, suspended = [], started = [],
      completionHandlers = Map.empty, received = Map.empty\<rparr>"

text \<open>The synchronous part of \<open>execute(key, operation)\<close>, called by \<open>caller\<close>.\<close>

definition callExecute :: "'r RequestDeduplicator \<Rightarrow> nat \<Rightarrow> string \<Rightarrow> 'r RequestDeduplicator" where
  "callExecute d caller key =
     (case pendingRequests d key of
        Some existing \<Rightarrow>
          d\<lparr>pendingRequests := (pendingRequests d)(key \<mapsto>
               existing\<lparr>resolvers := resolvers existing @ [caller]\<rparr>)\<rparr>
      | None \<Rightarrow> d\<lparr>suspended := suspended d @ [(caller, key)]\<rparr>)"

text \<open>The rest of \<open>execute\<close> for a caller whose check returned \<open>null\<close>: the operation is
  invoked, and \<open>registerRequest\<close> registers its promise unless the key is pending
  already.\<close>

definition resumeExecute ::
  "'r RequestDeduplicator \<Rightarrow> nat \<times> string \<Rightarrow> int \<Rightarrow> 'r RequestDeduplicator" where
  "resumeExecute d task now =
     (let (caller, key) = task;
          promise = length (started d);
          d1 = d\<lparr>started := started d @ [(key, caller)]\<rparr>
      in if pendingRequests d1 key \<noteq> None then d1
         else d1\<lparr>pendingRequests := (pendingRequests d1)(key \<mapsto>
                    \<lparr>requestPromise = promise, requestTimestamp = now, resolvers = []\<rparr>),
                 completionHandlers := (completionHandlers d1)(promise \<mapsto> key)\<rparr>)"

text \<open>Running the microtask queue: the suspended calls resume in the order in which
  they were suspended.\<close>

definition runMicrotasks :: "'r RequestDeduplicator \<Rightarrow> int \<Rightarrow> 'r RequestDeduplicator" where
  "runMicrotasks d now =
     foldl (\<lambda>s task. resumeExecute s task now) (d\<lparr>suspended := []\<rparr>) (suspended d)"

text \<open>One stretch of synchronous code that calls \<open>execute\<close> for each of the given
  callers and keys, followed by the microtasks it has queued.\<close>

definition sameTick ::
  "'r RequestDeduplicator \<Rightarrow> (nat \<times> string) list \<Rightarrow> int \<Rightarrow> 'r RequestDeduplicator" where
  "sameTick d cs now =
     runMicrotasks (foldl (\<lambda>s c. callExecute s (fst c) (snd c)) d cs) now"

definition completeRequest ::
  "'r RequestDeduplicator \<Rightarrow> string \<Rightarrow> jsval + 'r \<Rightarrow> 'r RequestDeduplicator" where
  "completeRequest d key outcome =
     (case pendingRequests d key of
        None \<Rightarrow> d
      | Some request \<Rightarrow>
          (let delivers = (case outcome of Inl error \<Rightarrow> truthy error | Inr res \<Rightarrow> True);
               received1 =
                 (if delivers
                  then foldl (\<lambda>m waiter. m(waiter \<mapsto> outcome)) (received d) (resolvers request)
                  else received d)
           in d\<lparr>received := received1, pendingRequests := (pendingRequests d)(key := None)\<rparr>))"

text \<open>The promise of an invocation settles: the caller that invoked the operation and
  returned that promise receives the outcome, and if \<open>registerRequest\<close> put handlers on
  the promise, \<open>completeRequest\<close> runs.\<close>

definition settle :: "'r RequestDeduplicator \<Rightarrow> nat \<Rightarrow> jsval + 'r \<Rightarrow> 'r RequestDeduplicator" where
  "settle d promise outcome =
     (if promise \<ge> length (started d) then d
      else (let d1 = d\<lparr>received := (received d)(snd (started d ! promise) \<mapsto> outcome)\<rparr>
            in case completionHandlers d1 promise of
                 None \<Rightarrow> d1
               | Some key \<Rightarrow> completeRequest d1 key outcome))"

section \<open>Documents of the state store\<close>

text \<open>
  \<open>StateStore\<close> keeps its document by reference: \<open>setValueAtPath\<close> installs the value
  of a patch as it is handed in, \<open>_.set\<close> and \<open>_.unset\<close> change objects in place, and
  \<open>getSnapshot\<close>, \<open>getHistory\<close> and \<open>exportState\<close> hand out the stored objects
  themselves. An object of a document therefore has an identity, and a change of an
  object shows wherever that object is held. A document is a tree whose arrays and
  objects bear their identity: an object that is held in several places occurs several
  times, with the same identity and the same content, and a change of an object is
  carried out at every occurrence. Only a cyclic document has no such tree; the
  functions below say so where a write would make one. The values are those of JSON,
  with whole numbers for the numbers, and \<open>undefined\<close>.

  An identity is \<open>Given n\<close> for an object made by a caller of the store, \<open>Made n\<close> for an
  empty object or array made by the store, and \<open>Copy n i\<close> for the copy of the object
  \<open>i\<close> made by the deep copy number \<open>n\<close>.
\<close>

datatype objId = Given nat | Made nat | Copy nat objId

datatype docval =
    DUndefined
  | DNull
  | DBool bool
  | DNum int
  | DStr string
  | DArr objId "docval list" "(string \<times> docval) list"
  | DObj objId "(string \<times> docval) list"

definition isObject :: "docval \<Rightarrow> bool" where
  "isObject x = (case x of DArr i es ps \<Rightarrow> True | DObj i kvs \<Rightarrow> True | other \<Rightarrow> False)"

definition isArray :: "docval \<Rightarrow> bool" where
  "isArray x = (case x of DArr i es ps \<Rightarrow> True | other \<Rightarrow> False)"

definition isNullish :: "docval \<Rightarrow> bool" where
  "isNullish x = (x = DNull \<or> x = DUndefined)"

definition isString :: "docval \<Rightarrow> bool" where
  "isString x = (case x of DStr s \<Rightarrow> True | other \<Rightarrow> False)"

fun objectId :: "docval \<Rightarrow> objId option" where
  "objectId (DArr i es ps) = Some i"
| "objectId (DObj i kvs) = Some i"
| "objectId other = None"

text \<open>The objects that occur in a document, the root first.\<close>

primrec objectIds :: "docval \<Rightarrow> objId list" where
  "objectIds DUndefined = []"
| "objectIds DNull = []"
| "objectIds (DBool b) = []"
| "objectIds (DNum n) = []"
| "objectIds (DStr s) = []"
| "objectIds (DArr i es ps) =
     i # concat (map objectIds es) @ concat (map snd (map (map_prod id objectIds) ps))"
| "objectIds (DObj i kvs) = i # concat (map snd (map (map_prod id objectIds) kvs))"

text \<open>The numbers in an identity lie below its bound; a number that is not below the
  bound of any object at hand names a new object.\<close>

primrec idBound :: "objId \<Rightarrow> nat" where
  "idBound (Given n) = 0"
| "idBound (Made n) = Suc n"
| "idBound (Copy n i) = max (Suc n) (idBound i)"

definition docBound :: "docval \<Rightarrow> nat" where
  "docBound d = foldr max (map idBound (objectIds d)) 0"

text \<open>What a document says, without the identities: two documents are deep-equal when
  they have the same content.\<close>

primrec content :: "docval \<Rightarrow> jsval" where
  "content DUndefined = JUndefined"
| "content DNull = JNull"
| "content (DBool b) = JBool b"
| "content (DNum n) = JNum n"
| "content (DStr s) = JStr s"
| "content (DArr i es ps) = JArr (map content es) (map (map_prod id content) ps)"
| "content (DObj i kvs) = JObj (map (map_prod id content) kvs)"

text \<open>What \<open>JSON.stringify\<close> writes of a document that is not \<open>undefined\<close>.\<close>

definition jsonOf :: "docval \<Rightarrow> jsval" where
  "jsonOf d = jsonRoundTrip (content d)"


section \<open>Property paths (the lodash functions used by the state store)\<close>

text \<open>
  \<open>StateStore\<close> writes and copies its document with \<open>_.set\<close>, \<open>_.unset\<close> and
  \<open>_.cloneDeep\<close> of the third-party package \<open>lodash\<close>, which is not part of the
  repository. They are modelled here together with \<open>_.get\<close>, the reading counterpart
  of \<open>_.set\<close>. The special property \<open>length\<close> of arrays and strings is not modelled. A
  path string is cut into keys at dots and brackets; \<open>lodash\<close> cuts paths with empty
  segments, decimal fractions in brackets or quoted keys differently, and none of the
  theorems depends on the keys of such a path.
\<close>

subsection \<open>Keys\<close>

definition isDigit :: "char \<Rightarrow> bool" where
  "isDigit c = (c \<in> set ''0123456789'')"

definition isWordChar :: "char \<Rightarrow> bool" where
  "isWordChar c =
     (c \<in> set ''abcdefghijklmnopqrstuvwxyzABCDEFGHIJKLMNOPQRSTUVWXYZ0123456789_'')"

definition digitValue :: "char \<Rightarrow> nat" where
  "digitValue c = of_char c - 48"

text \<open>The array index a key denotes, if any: \<open>0\<close>, or digits without a leading zero.\<close>

definition arrayIndex :: "string \<Rightarrow> nat option" where
  "arrayIndex k =
     (if k = ''0'' then Some 0
      else if k \<noteq> [] \<and> list_all isDigit k \<and> hd k \<noteq> CHR ''0''
      then Some (foldl (\<lambda>n c. 10 * n + digitValue c) 0 k)
      else None)"

text \<open>A plain property name consists of word characters only; a deep path has a dot or
  a bracketed part.\<close>

definition isPlainProp :: "string \<Rightarrow> bool" where
  "isPlainProp p = list_all isWordChar p"

fun hasBracketPair :: "string \<Rightarrow> bool \<Rightarrow> bool" where
  "hasBracketPair [] opened = False"
| "hasBracketPair (c # cs) opened =
     (if c = CHR ''['' then hasBracketPair cs True
      else if c = CHR '']'' then (opened \<or> hasBracketPair cs False)
      else hasBracketPair cs opened)"

definition isDeepProp :: "string \<Rightarrow> bool" where
  "isDeepProp p = (CHR ''.'' \<in> set p \<or> hasBracketPair p False)"

subsection \<open>Own properties\<close>

fun getProperty :: "docval \<Rightarrow> string \<Rightarrow> docval" where
  "getProperty (DObj i kvs) k = (case map_of kvs k of Some x \<Rightarrow> x | None \<Rightarrow> DUndefined)"
| "getProperty (DArr i es ps) k =
     (case arrayIndex k of
        Some n \<Rightarrow> if n < length es then es ! n else DUndefined
      | None \<Rightarrow> (case map_of ps k of Some x \<Rightarrow> x | None \<Rightarrow> DUndefined))"
| "getProperty (DStr s) k =
     (case arrayIndex k of
        Some n \<Rightarrow> if n < length s then DStr [s ! n] else DUndefined
      | None \<Rightarrow> DUndefined)"
| "getProperty other k = DUndefined"

text \<open>\<open>key in Object(x)\<close>, for the keys that reach this test (they contain a dot or a
  bracket, so they name no index and no inherited member).\<close>

fun hasProperty :: "docval \<Rightarrow> string \<Rightarrow> bool" where
  "hasProperty (DObj i kvs) k = (k \<in> fst ` set kvs)"
| "hasProperty (DArr i es ps) k = (k \<in> fst ` set ps)"
| "hasProperty other k = False"

text \<open>Writing a property: one that is there keeps its place, a new one goes to the end.\<close>

fun putProperty :: "(string \<times> 'a) list \<Rightarrow> string \<Rightarrow> 'a \<Rightarrow> (string \<times> 'a) list" where
  "putProperty [] k x = [(k, x)]"
| "putProperty ((k', x') # kvs) k x =
     (if k' = k then (k, x) # kvs else (k', x') # putProperty kvs k x)"

definition setElement :: "docval list \<Rightarrow> nat \<Rightarrow> docval \<Rightarrow> docval list" where
  "setElement es n x =
     (if n < length es then es[n := x]
      else es @ replicate (n - length es) DUndefined @ [x])"

subsection \<open>Changing an object in place\<close>

text \<open>\<open>object[key] = value\<close> for the object or array \<open>t\<close>, carried out in a document
  that may hold \<open>t\<close>: every occurrence of \<open>t\<close> gets the property.\<close>

primrec assignIn :: "objId \<Rightarrow> string \<Rightarrow> docval \<Rightarrow> docval \<Rightarrow> docval" where
  "assignIn t k x DUndefined = DUndefined"
| "assignIn t k x DNull = DNull"
| "assignIn t k x (DBool b) = DBool b"
| "assignIn t k x (DNum n) = DNum n"
| "assignIn t k x (DStr s) = DStr s"
| "assignIn t k x (DArr i es ps) =
     (if i = t
      then (case arrayIndex k of
              Some n \<Rightarrow> DArr i (setElement (map (assignIn t k x) es) n x)
                          (map (map_prod id (assignIn t k x)) ps)
            | None \<Rightarrow> DArr i (map (assignIn t k x) es)
                        (putProperty (map (map_prod id (assignIn t k x)) ps) k x))
      else DArr i (map (assignIn t k x) es) (map (map_prod id (assignIn t k x)) ps))"
| "assignIn t k x (DObj i kvs) =
     (if i = t then DObj i (putProperty (map (map_prod id (assignIn t k x)) kvs) k x)
      else DObj i (map (map_prod id (assignIn t k x)) kvs))"

text \<open>\<open>delete object[key]\<close> for the object or array \<open>t\<close>: deleting an element of an array
  leaves a hole.\<close>

definition clearElement :: "docval list \<Rightarrow> nat \<Rightarrow> docval list" where
  "clearElement es n = (if n < length es then es[n := DUndefined] else es)"

primrec deleteIn :: "objId \<Rightarrow> string \<Rightarrow> docval \<Rightarrow> docval" where
  "deleteIn t k DUndefined = DUndefined"
| "deleteIn t k DNull = DNull"
| "deleteIn t k (DBool b) = DBool b"
| "deleteIn t k (DNum n) = DNum n"
| "deleteIn t k (DStr s) = DStr s"
| "deleteIn t k (DArr i es ps) =
     (if i = t
      then (case arrayIndex k of
              Some n \<Rightarrow> DArr i (clearElement (map (deleteIn t k) es) n)
                          (map (map_prod id (deleteIn t k)) ps)
            | None \<Rightarrow> DArr i (map (deleteIn t k) es)
                        (filter (\<lambda>kv. fst kv \<noteq> k) (map (map_prod id (deleteIn t k)) ps)))
      else DArr i (map (deleteIn t k) es) (map (map_prod id (deleteIn t k)) ps))"
| "deleteIn t k (DObj i kvs) =
     (if i = t then DObj i (filter (\<lambda>kv. fst kv \<noteq> k) (map (map_prod id (deleteIn t k)) kvs))
      else DObj i (map (map_prod id (deleteIn t k)) kvs))"

text \<open>The changes a call makes, in their order, and their effect on a document.\<close>

datatype mutation = Assign objId string docval | Delete objId string

fun mutate :: "mutation \<Rightarrow> docval \<Rightarrow> docval" where
  "mutate (Assign t k x) d = assignIn t k x d"
| "mutate (Delete t k) d = deleteIn t k d"

definition mutateAll :: "mutation list \<Rightarrow> docval \<Rightarrow> docval" where
  "mutateAll ms d = foldl (\<lambda>doc m. mutate m doc) d ms"

text \<open>The values to assign are themselves changed by the earlier changes of the list
  when they hold the objects changed. An assignment of a value that holds the object
  assigned to makes that object cyclic: then there is no result.\<close>

fun settlePlan :: "mutation list \<Rightarrow> mutation list \<Rightarrow> mutation list option" where
  "settlePlan ms [] = Some ms"
| "settlePlan ms (Delete t k # rest) = settlePlan (ms @ [Delete t k]) rest"
| "settlePlan ms (Assign t k x # rest) =
     (let y = mutateAll ms x
      in if t \<in> set (objectIds y) then None else settlePlan (ms @ [Assign t k y]) rest)"





definition madeBetween :: "nat \<Rightarrow> nat \<Rightarrow> objId \<Rightarrow> bool" where
  "madeBetween n n' i = (case i of Made j \<Rightarrow> n \<le> j \<and> j < n' | other \<Rightarrow> False)"

subsection \<open>Paths\<close>

fun pathTokens :: "string \<Rightarrow> string \<Rightarrow> string list" where
  "pathTokens [] current = (if current = [] then [] else [current])"
| "pathTokens (c # cs) current =
     (if c = CHR ''.'' \<or> c = CHR ''['' \<or> c = CHR '']''
      then (if current = [] then pathTokens cs [] else current # pathTokens cs [])
      else pathTokens cs (current @ [c]))"

definition stringToPath :: "string \<Rightarrow> string list" where
  "stringToPath p =
     (if p \<noteq> [] \<and> hd p = CHR ''.'' then [] # pathTokens p [] else pathTokens p [])"

definition isKey :: "string \<Rightarrow> docval \<Rightarrow> bool" where
  "isKey p object =
     (isPlainProp p \<or> \<not> isDeepProp p \<or> (\<not> isNullish object \<and> hasProperty object p))"

definition castPath :: "string \<Rightarrow> docval \<Rightarrow> string list" where
  "castPath p object = (if isKey p object then [p] else stringToPath p)"

definition unsafeKey :: "string \<Rightarrow> bool" where
  "unsafeKey k = (k = ''__proto__'' \<or> k = ''constructor'' \<or> k = ''prototype'')"

subsection \<open>\<open>_.get\<close>, \<open>_.set\<close>, \<open>_.unset\<close>, \<open>_.cloneDeep\<close>\<close>

fun baseGet :: "docval \<Rightarrow> string list \<Rightarrow> docval" where
  "baseGet object [] = object"
| "baseGet object (k # ks) =
     (if isNullish object then DUndefined else baseGet (getProperty object k) ks)"

definition lodashGet :: "docval \<Rightarrow> string \<Rightarrow> docval" where
  "lodashGet object p =
     (if isNullish object \<or> castPath p object = [] then DUndefined
      else baseGet object (castPath p object))"

text \<open>\<open>baseSet\<close>, called on an object or array \<open>nested\<close>, as the list of the assignments
  that it makes: a step that is not the last goes on into the object found under the
  key, or puts a new empty array (when the next key is an index) or a new empty object
  there, numbered \<open>n\<close>, and goes on into that. An unsafe key ends the walk.\<close>

fun baseSet :: "docval \<Rightarrow> string list \<Rightarrow> docval \<Rightarrow> nat \<Rightarrow> mutation list \<times> nat" where
  "baseSet nested [] x n = ([], n)"
| "baseSet nested [k] x n =
     (if unsafeKey k then ([], n)
      else (case objectId nested of
              None \<Rightarrow> ([], n)
            | Some t \<Rightarrow> ([Assign t k x], n)))"
| "baseSet nested (k # k' # ks) x n =
     (if unsafeKey k then ([], n)
      else (case objectId nested of
              None \<Rightarrow> ([], n)
            | Some t \<Rightarrow>
                (let objValue = getProperty nested k
                 in if isObject objValue then baseSet objValue (k' # ks) x n
                    else (let newValue = (if arrayIndex k' \<noteq> None then DArr (Made n) [] []
                                          else DObj (Made n) []);
                              (rest, n') = baseSet newValue (k' # ks) x (Suc n)
                          in (Assign t k newValue # rest, n')))))"

definition lodashSet :: "docval \<Rightarrow> string \<Rightarrow> docval \<Rightarrow> nat \<Rightarrow> mutation list \<times> nat" where
  "lodashSet object p x n =
     (if \<not> isObject object then ([], n) else baseSet object (castPath p object) x n)"

text \<open>\<open>baseUnset\<close>: the parent of the last key is looked up, and the key is deleted from
  it when it is an object or an array. The last key of an empty path is
  \<open>undefined\<close>, which names the property \<open>undefined\<close>.\<close>

definition baseUnset :: "docval \<Rightarrow> string list \<Rightarrow> mutation list" where
  "baseUnset object keys =
     (let parent = (if length keys < 2 then object else baseGet object (butlast keys));
          key = (if keys = [] then ''undefined'' else last keys)
      in case objectId parent of
           None \<Rightarrow> []
         | Some t \<Rightarrow> [Delete t key])"

definition lodashUnset :: "docval \<Rightarrow> string \<Rightarrow> mutation list" where
  "lodashUnset object p =
     (if isNullish object then [] else baseUnset object (castPath p object))"

text \<open>\<open>_.cloneDeep\<close>, as the deep copy number \<open>n\<close>: every object and array is copied once.
  Of the extra properties of an array it keeps \<open>index\<close> and \<open>input\<close>, uncopied, when
  the array owns \<open>index\<close> and its first element is a string (the shape of a
  \<open>RegExp\<close> match), and none otherwise.\<close>

primrec cloneDeep :: "nat \<Rightarrow> docval \<Rightarrow> docval" where
  "cloneDeep n DUndefined = DUndefined"
| "cloneDeep n DNull = DNull"
| "cloneDeep n (DBool b) = DBool b"
| "cloneDeep n (DNum m) = DNum m"
| "cloneDeep n (DStr s) = DStr s"
| "cloneDeep n (DArr i es ps) =
     DArr (Copy n i) (map (cloneDeep n) es)
       (if es \<noteq> [] \<and> isString (hd es) \<and> ''index'' \<in> fst ` set ps
        then [(''index'', case map_of ps ''index'' of Some x \<Rightarrow> x | None \<Rightarrow> DUndefined),
              (''input'', case map_of ps ''input'' of Some x \<Rightarrow> x | None \<Rightarrow> DUndefined)]
        else [])"
| "cloneDeep n (DObj i kvs) = DObj (Copy n i) (map (map_prod id (cloneDeep n)) kvs)"

section \<open>State store (src/state/StateStore.ts)\<close>

text \<open>
  The store holds the current document, the history of events, the snapshots (a \<open>Map\<close>,
  kept in insertion order) and a counter for event ids. Clock readings are arguments.
  An event id \<open>event_<now>_<counter>\<close> is the pair of its two numbers. The metadata of a
  patch event are two checksums, hashes of \<open>JSON.stringify\<close> of the document before and
  after; the model keeps what \<open>JSON.stringify\<close> writes of the two documents in their
  place. Persistence, when enabled, writes a copy of the store to \<open>localStorage\<close> and
  does not change the store; it is left out, and so are the emitted events. The \<open>op\<close> of
  a patch has the three values of its type, so the \<open>default\<close> branch of \<open>applyPatch\<close>,
  which throws, is not reached.

  The documents of the store, the states of its snapshots and the values of the
  patches in its history may hold the same objects. The field \<open>objectCounter\<close> is not
  in the code: it numbers the objects that the store makes, so that each is new.
\<close>

datatype PatchOp = Add | Replace | Remove

record IStatePatch =
  patchOp :: PatchOp  \<comment> \<open>the field \<open>op\<close>\<close>
  patchPath :: string  \<comment> \<open>the field \<open>path\<close>\<close>
  patchValue :: docval  \<comment> \<open>the optional field \<open>value\<close>\<close>

datatype EventMetadata =
    PatchesApplied jsval jsval
  | SnapshotRestore string int

record IStateEvent =
  eventId :: "int \<times> nat"  \<comment> \<open>the field \<open>id\<close>\<close>
  eventTimestamp :: int
  patches :: "IStatePatch list"
  eventMetadata :: EventMetadata

record StateSnapshot =
  snapshotId :: string
  snapshotState :: docval
  snapshotTimestamp :: int
  snapshotMetadata :: docval

record StateStoreConfig =
  enablePersistence :: bool
  persistenceKey :: string
  maxHistorySize :: int
  maxSnapshotSize :: int
  enableCompression :: bool

record StateStore =
  currentState :: docval
  history :: "IStateEvent list"
  snapshots :: "(string \<times> StateSnapshot) list"
  storeConfig :: StateStoreConfig  \<comment> \<open>the field \<open>config\<close>\<close>
  eventCounter :: nat
  objectCounter :: nat

text \<open>\<open>generateChecksum\<close> reads the length of \<open>JSON.stringify(data)\<close>, which is
  \<open>undefined\<close> for the document \<open>undefined\<close>: a \<open>TypeError\<close>.\<close>

datatype StoreError = SnapshotNotFound string | ChecksumTypeError

definition defaultStoreConfig :: StateStoreConfig where
  "defaultStoreConfig =
     \<lparr>enablePersistence = False, persistenceKey = ''halo_state_store'',
      maxHistorySize = 1000, maxSnapshotSize = 50, enableCompression = False\<rparr>"

subsection \<open>The objects of a store\<close>

text \<open>A change of an object reaches every place where the store holds it.\<close>

definition onValue :: "(docval \<Rightarrow> docval) \<Rightarrow> IStatePatch \<Rightarrow> IStatePatch" where
  "onValue f p = p\<lparr>patchValue := f (patchValue p)\<rparr>"

definition onEvent :: "(docval \<Rightarrow> docval) \<Rightarrow> IStateEvent \<Rightarrow> IStateEvent" where
  "onEvent f e = e\<lparr>patches := map (onValue f) (patches e)\<rparr>"

definition onSnapshot :: "(docval \<Rightarrow> docval) \<Rightarrow> StateSnapshot \<Rightarrow> StateSnapshot" where
  "onSnapshot f sn =
     sn\<lparr>snapshotState := f (snapshotState sn), snapshotMetadata := f (snapshotMetadata sn)\<rparr>"

definition everywhere :: "(docval \<Rightarrow> docval) \<Rightarrow> StateStore \<Rightarrow> StateStore" where
  "everywhere f s =
     s\<lparr>currentState := f (currentState s),
       history := map (onEvent f) (history s),
       snapshots := map (map_prod id (onSnapshot f)) (snapshots s)\<rparr>"

text \<open>A number for a new object: not below the counter, and not below the bound of
  any document that the store holds or that the call at hand was given.\<close>

definition storeDocs :: "StateStore \<Rightarrow> docval list" where
  "storeDocs s =
     currentState s
     # concat (map (\<lambda>e. map patchValue (patches e)) (history s))
     @ concat (map (\<lambda>kv. [snapshotState (snd kv), snapshotMetadata (snd kv)]) (snapshots s))"

definition freshNumber :: "StateStore \<Rightarrow> docval list \<Rightarrow> nat" where
  "freshNumber s given = foldr max (map docBound (storeDocs s @ given)) (objectCounter s)"

subsection \<open>The document\<close>

text \<open>The constructor, with the config already merged over the defaults. The parameter
  \<open>initialState\<close> has the default \<open>{}\<close>, which takes the place of \<open>undefined\<close>.\<close>

definition newStateStore :: "docval \<Rightarrow> StateStoreConfig \<Rightarrow> StateStore" where
  "newStateStore initialState cfg =
     (let initial = (if initialState = DUndefined then DObj (Made 0) [] else initialState)
      in \<lparr>currentState = cloneDeep (docBound initial) initial, history = [],
          snapshots = [], storeConfig = cfg, eventCounter = 0,
          objectCounter = Suc (docBound initial)\<rparr>)"

text \<open>\<open>getCurrentState\<close> leaves the store as it is; the model counts the copy.\<close>

definition getCurrentState :: "StateStore \<Rightarrow> docval \<times> StateStore" where
  "getCurrentState s =
     (let n = freshNumber s []
      in (cloneDeep n (currentState s), s\<lparr>objectCounter := Suc n\<rparr>))"

text \<open>\<open>path.replace(/^\$\./, '')\<close>.\<close>

definition stripRoot :: "string \<Rightarrow> string" where
  "stripRoot p = (if take 2 p = ''$.'' then drop 2 p else p)"

text \<open>\<open>setValueAtPath\<close> and \<open>deleteValueAtPath\<close> give the store after the call and the
  changes made to objects, which also reach the values of the patches of the call.
  There is no result when the write makes an object cyclic.\<close>

definition setValueAtPath ::
  "StateStore \<Rightarrow> string \<Rightarrow> docval \<Rightarrow> (StateStore \<times> mutation list) option" where
  "setValueAtPath s p x =
     (if p = ''$'' \<or> p = '''' then Some (s\<lparr>currentState := x\<rparr>, [])
      else (let (plan, n) = lodashSet (currentState s) (stripRoot p) x (objectCounter s)
            in case settlePlan [] plan of
                 None \<Rightarrow> None
               | Some ms \<Rightarrow> Some (everywhere (mutateAll ms) (s\<lparr>objectCounter := n\<rparr>), ms)))"

definition deleteValueAtPath :: "StateStore \<Rightarrow> string \<Rightarrow> StateStore \<times> mutation list" where
  "deleteValueAtPath s p =
     (if p = ''$'' \<or> p = ''''
      then (s\<lparr>currentState := DObj (Made (objectCounter s)) [],
              objectCounter := Suc (objectCounter s)\<rparr>, [])
      else (let ms = lodashUnset (currentState s) (stripRoot p)
            in (everywhere (mutateAll ms) s, ms)))"

definition applyPatch :: "StateStore \<Rightarrow> IStatePatch \<Rightarrow> (StateStore \<times> mutation list) option" where
  "applyPatch s patch =
     (case patchOp patch of
        Add \<Rightarrow> setValueAtPath s (patchPath patch) (patchValue patch)
      | Replace \<Rightarrow> setValueAtPath s (patchPath patch) (patchValue patch)
      | Remove \<Rightarrow> Some (deleteValueAtPath s (patchPath patch)))"

text \<open>\<open>patches.forEach\<close>: the patches applied so far and the patches to come, both as
  the changes of the earlier patches have left them.\<close>

fun applyBatch ::
  "StateStore \<Rightarrow> IStatePatch list \<Rightarrow> IStatePatch list \<Rightarrow> (StateStore \<times> IStatePatch list) option" where
  "applyBatch s applied [] = Some (s, applied)"
| "applyBatch s applied (p # rest) =
     (case applyPatch s p of
        None \<Rightarrow> None
      | Some (s1, ms) \<Rightarrow>
          applyBatch s1 (map (onValue (mutateAll ms)) (applied @ [p]))
            (map (onValue (mutateAll ms)) rest))"

definition addToHistory :: "StateStore \<Rightarrow> IStateEvent \<Rightarrow> StateStore" where
  "addToHistory s event =
     (let pushed = history s @ [event]
      in if int (length pushed) > maxHistorySize (storeConfig s)
         then s\<lparr>history := tl pushed\<rparr>
         else s\<lparr>history := pushed\<rparr>)"

definition generateEventId :: "StateStore \<Rightarrow> int \<Rightarrow> (int \<times> nat) \<times> StateStore" where
  "generateEventId s now =
     ((now, eventCounter s + 1), s\<lparr>eventCounter := eventCounter s + 1\<rparr>)"

text \<open>A call of \<open>applyPatches\<close> returns, or it throws with the patches applied and no
  event logged, or it makes the document cyclic (then \<open>JSON.stringify\<close> throws in
  the code, and the model has no document to show). The call reads the clock for the
  id of the event before it applies the patches, and for the time stamp of the event
  after.\<close>

datatype PatchOutcome = Applied StateStore | Threw StoreError StateStore | Cyclic

definition applyPatches ::
  "StateStore \<Rightarrow> IStatePatch list \<Rightarrow> int \<Rightarrow> int \<Rightarrow> PatchOutcome" where
  "applyPatches s ps now later =
     (if ps = [] then Applied s
      else (let n = freshNumber s (map patchValue ps);
                previousState = cloneDeep n (currentState s);
                (eid, s1) = generateEventId (s\<lparr>objectCounter := Suc n\<rparr>) now
            in case applyBatch s1 [] ps of
                 None \<Rightarrow> Cyclic
               | Some (s2, applied) \<Rightarrow>
                   if previousState = DUndefined \<or> currentState s2 = DUndefined
                   then Threw ChecksumTypeError s2
                   else Applied (addToHistory s2
                          \<lparr>eventId = eid, eventTimestamp = later, patches = applied,
                           eventMetadata = PatchesApplied (jsonOf previousState)
                                             (jsonOf (currentState s2))\<rparr>)))"

subsection \<open>Snapshots\<close>

text \<open>\<open>Map.set\<close>: a key that is there keeps its place, a new key goes to the end.\<close>

fun mapSet :: "(string \<times> 'a) list \<Rightarrow> string \<Rightarrow> 'a \<Rightarrow> (string \<times> 'a) list" where
  "mapSet [] k x = [(k, x)]"
| "mapSet ((k', x') # kvs) k x =
     (if k' = k then (k, x) # kvs else (k', x') # mapSet kvs k x)"

definition mapDelete :: "(string \<times> 'a) list \<Rightarrow> string \<Rightarrow> (string \<times> 'a) list" where
  "mapDelete kvs k = filter (\<lambda>kv. fst kv \<noteq> k) kvs"

text \<open>The first entry of the snapshots sorted by ascending time stamp. The sort is
  stable, so this is the earliest inserted among the entries with the least stamp:
  an entry replaces the candidate only when its stamp is strictly smaller.\<close>

fun oldestFrom :: "string \<times> StateSnapshot \<Rightarrow> (string \<times> StateSnapshot) list \<Rightarrow> string \<times> StateSnapshot" where
  "oldestFrom best [] = best"
| "oldestFrom best (entry # entries) =
     (if snapshotTimestamp (snd entry) < snapshotTimestamp (snd best)
      then oldestFrom entry entries
      else oldestFrom best entries)"

text \<open>The deep copy of the document that \<open>createSnapshot\<close> makes, called with the
  metadata \<open>meta\<close>.\<close>

definition checkpointCopy :: "StateStore \<Rightarrow> docval \<Rightarrow> docval" where
  "checkpointCopy s meta = cloneDeep (freshNumber s [meta]) (currentState s)"

definition createSnapshot :: "StateStore \<Rightarrow> string \<Rightarrow> docval \<Rightarrow> int \<Rightarrow> StateStore" where
  "createSnapshot s sid meta now =
     (let snapshot = \<lparr>snapshotId = sid, snapshotState = checkpointCopy s meta,
                      snapshotTimestamp = now, snapshotMetadata = meta\<rparr>;
          stored = mapSet (snapshots s) sid snapshot
      in if int (length stored) > maxSnapshotSize (storeConfig s)
         then s\<lparr>snapshots := mapDelete stored (fst (oldestFrom (hd stored) (tl stored))),
                objectCounter := Suc (freshNumber s [meta])\<rparr>
         else s\<lparr>snapshots := stored, objectCounter := Suc (freshNumber s [meta])\<rparr>)"

text \<open>\<open>getSnapshot\<close> hands out the stored snapshot itself.\<close>

definition getSnapshot :: "StateStore \<Rightarrow> string \<Rightarrow> StateSnapshot option" where
  "getSnapshot s sid = map_of (snapshots s) sid"

text \<open>The store holds a snapshot \<open>sid\<close> whose state is the document \<open>d\<close>.\<close>

definition keepsSnapshot :: "StateStore \<Rightarrow> string \<Rightarrow> docval \<Rightarrow> bool" where
  "keepsSnapshot s sid d =
     (case getSnapshot s sid of None \<Rightarrow> False | Some sn \<Rightarrow> snapshotState sn = d)"


text \<open>A series of \<open>applyPatches\<close> calls, each with its two clock readings, by a caller
  that catches what a call throws. The patch values of a call are given as they are
  when the call is made. A call that makes the document cyclic ends the series
  without a store.\<close>

fun applyAll ::
  "StateStore \<Rightarrow> (IStatePatch list \<times> int \<times> int) list \<Rightarrow> StateStore option" where
  "applyAll s [] = Some s"
| "applyAll s ((ps, now, later) # rest) =
     (case applyPatches s ps now later of
        Applied s1 \<Rightarrow> applyAll s1 rest
      | Threw e s1 \<Rightarrow> applyAll s1 rest
      | Cyclic \<Rightarrow> None)"





subsection \<open>The patch of the form example\<close>

definition toyotaPatch :: IStatePatch where
  "toyotaPatch =
     \<lparr>patchOp = Replace, patchPath = ''$.form.make.value'', patchValue = DStr ''Toyota''\<rparr>"

definition formDocument :: docval where
  "formDocument =
     DObj (Given 0)
       [(''form'', DObj (Given 1)
          [(''make'', DObj (Given 2)
             [(''value'', DStr ''Honda''),
              (''options'', DArr (Given 3) [DStr ''Honda'', DStr ''Toyota''] [])]),
           (''year'', DObj (Given 4) [(''value'', DNum 2020)])])]"

text \<open>A store over the form document with the default config, and a store whose
  history may hold one event and holds one.\<close>

definition formStore :: StateStore where
  "formStore = newStateStore formDocument defaultStoreConfig"

definition fullHistoryStore :: StateStore where
  "fullHistoryStore =
     the (applyAll (newStateStore formDocument (defaultStoreConfig\<lparr>maxHistorySize := 1\<rparr>))
       [([\<lparr>patchOp = Replace, patchPath = ''$.form.year.value'', patchValue = DNum 2021\<rparr>], 10, 10)])"

text \<open>A store whose document holds an empty array under \<open>form\<close>.\<close>

definition listFormStore :: StateStore where
  "listFormStore =
     newStateStore (DObj (Given 0) [(''form'', DArr (Given 1) [] [])]) defaultStoreConfig"




section \<open>Circuit breaker: the half-open cycle\<close>

lemma getStats_Some [simp]: "cb k = Some st \<Longrightarrow> getStats cb k = (st, cb)"
  by (simp add: getStats_def)

lemma getStats_None [simp]: "cb k = None \<Longrightarrow> getStats cb k = (freshStats, cb(k \<mapsto> freshStats))"
  by (simp add: getStats_def)

lemma isOpen_elapsed:
  assumes "cb k = Some st" and "state st = Open"
    and "now - lastFailureTime st \<ge> resetTimeoutMs (effectiveConfig config)"
  shows "isOpen cb k config now = (False, cb(k \<mapsto> st\<lparr>state := HalfOpen\<rparr>))"
  using assms by (simp add: isOpen_def transitionToHalfOpen_def Let_def)

lemma recordSuccess_halfOpen:
  assumes "cb k = Some st" and "state st = HalfOpen"
  shows "recordSuccess cb k now =
         cb(k \<mapsto> st\<lparr>successes := successes st + 1, lastSuccessTime := now,
                      state := Closed, failures := 0\<rparr>)"
  using assms by (simp add: recordSuccess_def transitionToClosed_def Let_def)

lemma recordFailure_halfOpen:
  assumes "cb k = Some st" and "state st = HalfOpen"
  shows "recordFailure cb k config now =
         cb(k \<mapsto> st\<lparr>failures := failures st + 1, lastFailureTime := now, state := Open\<rparr>)"
  using assms by (simp add: recordFailure_def transitionToOpen_def Let_def)

text \<open>
  Claim C1. For every circuit key whose circuit is open and whose last recorded failure
  lies at least \<open>resetTimeoutMs\<close> back, the next \<open>isOpen\<close> check returns false and leaves
  the circuit half-open; from there a \<open>recordSuccess\<close> closes the circuit with the failure
  counter at 0, and a \<open>recordFailure\<close> opens it again. Other circuits are not touched by
  the check.
\<close>

theorem C1_half_open_cycle:
  assumes "cb k = Some st" and "state st = Open"
    and "now - lastFailureTime st \<ge> resetTimeoutMs (effectiveConfig config)"
  shows "fst (isOpen cb k config now) = False
       \<and> getState (snd (isOpen cb k config now)) k = HalfOpen
       \<and> (\<forall>k'. k' \<noteq> k \<longrightarrow> snd (isOpen cb k config now) k' = cb k')
       \<and> (\<forall>t. getState (recordSuccess (snd (isOpen cb k config now)) k t) k = Closed
              \<and> failureCount (recordSuccess (snd (isOpen cb k config now)) k t) k = 0)
       \<and> (\<forall>c t. getState (recordFailure (snd (isOpen cb k config now)) k c t) k = Open)"
proof -
  let ?st1 = "st\<lparr>state := HalfOpen\<rparr>"
  let ?cb1 = "cb(k \<mapsto> ?st1)"
  have step: "isOpen cb k config now = (False, ?cb1)"
    using assms by (rule isOpen_elapsed)
  have half: "?cb1 k = Some ?st1" by simp
  have st1: "state ?st1 = HalfOpen" by simp
  note succ = recordSuccess_halfOpen [of ?cb1 k ?st1, OF half st1]
  note fail = recordFailure_halfOpen [of ?cb1 k ?st1, OF half st1]
  show ?thesis
    unfolding step by (simp add: succ fail getState_def failureCount_def)
qed

theorem C1_half_open_cycle_witness:
  "fst (isOpen openedCircuit ''fetchMake'' None 61000) = False
   \<and> getState (snd (isOpen openedCircuit ''fetchMake'' None 61000)) ''fetchMake'' = HalfOpen
   \<and> getState (recordSuccess (snd (isOpen openedCircuit ''fetchMake'' None 61000))
        ''fetchMake'' 61005) ''fetchMake'' = Closed
   \<and> failureCount (recordSuccess (snd (isOpen openedCircuit ''fetchMake'' None 61000))
        ''fetchMake'' 61005) ''fetchMake'' = 0
   \<and> getState (recordFailure (snd (isOpen openedCircuit ''fetchMake'' None 61000))
        ''fetchMake'' None 61005) ''fetchMake'' = Open
   \<and> snd (isOpen openedCircuit ''fetchMake'' None 61000) ''fetchModel''
       = openedCircuit ''fetchModel''"
proof -
  have a: "openedCircuit ''fetchMake'' =
      Some \<lparr>failures = 5, successes = 2, lastFailureTime = 1000, lastSuccessTime = 400,
        state = Open\<rparr>"
    by (simp add: openedCircuit_def)
  have b: "state \<lparr>failures = 5, successes = 2, lastFailureTime = 1000, lastSuccessTime = 400,
        state = Open\<rparr> = Open" by simp
  have c: "61000 - lastFailureTime \<lparr>failures = 5, successes = 2, lastFailureTime = 1000,
        lastSuccessTime = 400, state = Open\<rparr> \<ge> resetTimeoutMs (effectiveConfig None)"
    by (simp add: effectiveConfig_def defaultConfig_def)
  show ?thesis
    using C1_half_open_cycle [where cb = openedCircuit and k = "''fetchMake''"
        and now = 61000 and config = None, OF a b c]
    by simp
qed

section \<open>Circuit breaker: when a closed circuit opens\<close>

lemma recordSuccess_closed:
  assumes "getState cb k = Closed"
  shows "getState (recordSuccess cb k now) k = Closed
       \<and> failureCount (recordSuccess cb k now) k = failureCount cb k"
proof (cases "cb k")
  case None
  then show ?thesis
    by (simp add: recordSuccess_def getState_def failureCount_def freshStats_def)
next
  case (Some st)
  with assms have "state st = Closed" by (simp add: getState_def)
  with Some show ?thesis
    by (simp add: recordSuccess_def getState_def failureCount_def)
qed

lemma recordFailure_closed:
  assumes "getState cb k = Closed"
  shows "failureCount (recordFailure cb k config now) k = failureCount cb k + 1
       \<and> getState (recordFailure cb k config now) k =
           (if failureCount cb k + 1 \<ge> failureThreshold (effectiveConfig config)
            then Open else Closed)"
proof (cases "cb k")
  case None
  then show ?thesis
    by (simp add: recordFailure_def getState_def failureCount_def freshStats_def
        transitionToOpen_def)
next
  case (Some st)
  with assms have "state st = Closed" by (simp add: getState_def)
  with Some show ?thesis
    by (simp add: recordFailure_def getState_def failureCount_def transitionToOpen_def)
qed

lemma totalFailures_simps [simp]:
  "totalFailures [] = 0"
  "totalFailures (Success # os) = totalFailures os"
  "totalFailures (Failure # os) = totalFailures os + 1"
  by (simp_all add: totalFailures_def)

lemma totalFailures_nonneg: "0 \<le> totalFailures os"
  by (simp add: totalFailures_def)

lemma recordAll_stays_closed:
  assumes "getState cb k = Closed"
    and "failureCount cb k + totalFailures os < failureThreshold (effectiveConfig config)"
  shows "getState (recordAll cb k config now os) k = Closed
       \<and> failureCount (recordAll cb k config now os) k = failureCount cb k + totalFailures os"
  using assms
proof (induction os arbitrary: cb now)
  case Nil
  then show ?case by simp
next
  case (Cons x os)
  show ?case
  proof (cases x)
    case Success
    let ?cb = "recordSuccess cb k now"
    from Cons.prems(1) have s: "getState ?cb k = Closed" "failureCount ?cb k = failureCount cb k"
      using recordSuccess_closed by blast+
    with Cons.prems(2) Success
    have "failureCount ?cb k + totalFailures os < failureThreshold (effectiveConfig config)"
      by simp
    from Cons.IH [OF s(1) this] s(2) Success show ?thesis by simp
  next
    case Failure
    let ?cb = "recordFailure cb k config now"
    have nn: "0 \<le> totalFailures os" by (rule totalFailures_nonneg)
    from Cons.prems(1) have f: "failureCount ?cb k = failureCount cb k + 1"
      and g: "getState ?cb k =
           (if failureCount cb k + 1 \<ge> failureThreshold (effectiveConfig config)
            then Open else Closed)"
      using recordFailure_closed by blast+
    from Cons.prems(2) Failure nn
    have small: "failureCount cb k + 1 < failureThreshold (effectiveConfig config)" by simp
    with g have c: "getState ?cb k = Closed" by simp
    from Cons.prems(2) Failure f
    have "failureCount ?cb k + totalFailures os < failureThreshold (effectiveConfig config)"
      by simp
    from Cons.IH [OF c this] f Failure show ?thesis by simp
  qed
qed

text \<open>
  Claim C2, as the code has it. While a circuit is closed the failure counter only grows:
  it counts every failure recorded since the circuit last closed, and a success recorded
  on a closed circuit leaves it alone. As long as that total stays below
  \<open>failureThreshold\<close> the circuit stays closed, and the next recorded failure opens it
  exactly when it brings the total to the threshold.
\<close>

theorem C2_opens_on_total_failures:
  assumes "getState cb k = Closed"
    and "failureCount cb k + totalFailures os < failureThreshold (effectiveConfig config)"
  shows "getState (recordAll cb k config now os) k = Closed
       \<and> failureCount (recordAll cb k config now os) k = failureCount cb k + totalFailures os
       \<and> (getState (recordFailure (recordAll cb k config now os) k config t) k = Open
            \<longleftrightarrow> failureCount cb k + totalFailures os + 1
                   \<ge> failureThreshold (effectiveConfig config))"
proof -
  note a = recordAll_stays_closed [OF assms, of now]
  from a have "getState (recordAll cb k config now os) k = Closed" by blast
  from recordFailure_closed [OF this, of config t] a show ?thesis by simp
qed

theorem C2_opens_on_total_failures_witness:
  "getState Map.empty ''fetchMake'' = Closed
   \<and> failureCount Map.empty ''fetchMake'' + totalFailures [Failure, Success]
       < failureThreshold (effectiveConfig thresholdTwo)
   \<and> getState (recordAll Map.empty ''fetchMake'' thresholdTwo 0 [Failure, Success])
       ''fetchMake'' = Closed
   \<and> failureCount (recordAll Map.empty ''fetchMake'' thresholdTwo 0 [Failure, Success])
       ''fetchMake'' = 1
   \<and> getState (recordFailure
         (recordAll Map.empty ''fetchMake'' thresholdTwo 0 [Failure, Success])
         ''fetchMake'' thresholdTwo 2) ''fetchMake'' = Open"
proof -
  have a: "getState (Map.empty :: circuits) ''fetchMake'' = Closed"
    by (simp add: getState_def freshStats_def)
  have b: "failureCount (Map.empty :: circuits) ''fetchMake'' + totalFailures [Failure, Success]
       < failureThreshold (effectiveConfig thresholdTwo)"
    by (simp add: failureCount_def freshStats_def effectiveConfig_def thresholdTwo_def)
  have c: "failureCount (Map.empty :: circuits) ''fetchMake'' = 0"
    by (simp add: failureCount_def freshStats_def)
  have d: "failureThreshold (effectiveConfig thresholdTwo) = 2"
    by (simp add: effectiveConfig_def thresholdTwo_def)
  show ?thesis
    using C2_opens_on_total_failures [where cb = Map.empty and k = "''fetchMake''"
        and os = "[Failure, Success]" and config = thresholdTwo and now = 0 and t = 2, OF a b]
      a b c d
    by simp
qed

text \<open>
  Claim C2 as it is written fails: with threshold 2, the trace failure, success, failure
  leaves one failure since the last success, the circuit was closed when the success was
  recorded, and the circuit is open all the same.
\<close>

theorem C2_counterexample:
  "getState (recordAll Map.empty ''fetchMake'' thresholdTwo 0 [Failure, Success])
       ''fetchMake'' = Closed
   \<and> getState (recordAll Map.empty ''fetchMake'' thresholdTwo 0 [Failure, Success, Failure])
       ''fetchMake'' = Open
   \<and> consecutiveFailures [Failure, Success, Failure] = 1
   \<and> failureThreshold (effectiveConfig thresholdTwo) = 2"
  by (simp add: getState_def recordSuccess_def recordFailure_def transitionToOpen_def
      freshStats_def effectiveConfig_def thresholdTwo_def consecutiveFailures_def)

section \<open>Retry manager: attempts, delays and the raised error\<close>

declare retryLoop.simps [simp del]

lemma retryLoop_invocations:
  "invoked (retryLoop op cfg sr a le sl) \<le> max a (nat (max_retries cfg + 1))"
proof (induction op cfg sr a le sl rule: retryLoop.induct)
  case (1 op cfg sr a le sl)
  show ?case
  proof (cases "int a \<le> max_retries cfg")
    case False
    then show ?thesis by (subst retryLoop.simps) simp
  next
    case True
    show ?thesis
    proof (cases "op a")
      case (Inr v)
      with True show ?thesis by (subst retryLoop.simps) (simp add: Let_def)
    next
      case (Inl e)
      show ?thesis
      proof (cases "abortsRetry sr e \<or> int a \<ge> max_retries cfg")
        case True
        with \<open>int a \<le> max_retries cfg\<close> Inl show ?thesis
          by (subst retryLoop.simps) (auto simp add: Let_def)
      next
        case False
        with \<open>int a \<le> max_retries cfg\<close> Inl "1.IH" [OF \<open>int a \<le> max_retries cfg\<close> refl Inl]
        show ?thesis
          by (subst retryLoop.simps) (auto simp add: Let_def)
      qed
    qed
  qed
qed

lemma retryLoop_lower:
  "int a \<le> max_retries cfg \<Longrightarrow> a + 1 \<le> invoked (retryLoop op cfg sr a le sl)"
proof (induction op cfg sr a le sl rule: retryLoop.induct)
  case (1 op cfg sr a le sl)
  note le = \<open>int a \<le> max_retries cfg\<close>
  show ?case
  proof (cases "op a")
    case (Inr v)
    with le show ?thesis by (subst retryLoop.simps) (simp add: Let_def)
  next
    case (Inl e)
    show ?thesis
    proof (cases "abortsRetry sr e \<or> int a \<ge> max_retries cfg")
      case True
      with le Inl show ?thesis
        by (subst retryLoop.simps) (auto simp add: Let_def)
    next
      case False
      then have nxt: "int (a + 1) \<le> max_retries cfg" by simp
      from False have na: "\<not> abortsRetry sr e" and nm: "\<not> max_retries cfg \<le> int a" by simp_all
      from "1.IH" [OF le refl Inl na nm nxt] False le Inl
      show ?thesis
        by (subst retryLoop.simps) (simp add: Let_def)
    qed
  qed
qed

lemma upt_split:
  "a + 1 \<le> n \<Longrightarrow> [max a 1 ..< n] = (if 0 < a then [a] else []) @ [a + 1 ..< n]"
proof (cases a)
  case 0
  then show ?thesis by simp
next
  case (Suc m)
  assume "a + 1 \<le> n"
  with Suc have "Suc m < n" by simp
  then have "[Suc m ..< n] = Suc m # [Suc (Suc m) ..< n]" by (rule upt_conv_Cons)
  with Suc show ?thesis by simp
qed

lemma retryLoop_sleeps:
  "sleeps (retryLoop op cfg sr a le sl) =
     sl @ map (calculateDelay cfg) [max a 1 ..< invoked (retryLoop op cfg sr a le sl)]"
proof (induction op cfg sr a le sl rule: retryLoop.induct)
  case (1 op cfg sr a le sl)
  show ?case
  proof (cases "int a \<le> max_retries cfg")
    case False
    then show ?thesis by (subst (1 2) retryLoop.simps) simp
  next
    case True
    have one: "[max a 1 ..< a + 1] = (if 0 < a then [a] else [])"
      by (cases a) simp_all
    show ?thesis
    proof (cases "op a")
      case (Inr v)
      with True show ?thesis by (subst (1 2) retryLoop.simps) (simp add: Let_def one)
    next
      case (Inl e)
      show ?thesis
      proof (cases "abortsRetry sr e \<or> int a \<ge> max_retries cfg")
        case True
        with \<open>int a \<le> max_retries cfg\<close> Inl show ?thesis
          by (subst (1 2) retryLoop.simps) (auto simp add: Let_def one)
      next
        case False
        let ?sl1 = "if 0 < a then sl @ [calculateDelay cfg a] else sl"
        let ?r = "retryLoop op cfg sr (a + 1) (Some e) ?sl1"
        from False have nxt: "int (a + 1) \<le> max_retries cfg" by simp
        from False have na: "\<not> abortsRetry sr e" and nm: "\<not> max_retries cfg \<le> int a" by simp_all
        have inv: "a + 2 \<le> invoked ?r"
          using retryLoop_lower [OF nxt, of op sr "Some e" ?sl1] by simp
        have unf: "retryLoop op cfg sr a le sl = ?r"
          using True Inl na nm by (subst retryLoop.simps) (simp add: Let_def)
        have ih: "sleeps ?r = ?sl1 @ map (calculateDelay cfg) [max (a + 1) 1 ..< invoked ?r]"
          using "1.IH" [OF True refl Inl na nm] .
        have split: "[max a 1 ..< invoked ?r] =
            (if 0 < a then [a] else []) @ [a + 1 ..< invoked ?r]"
          using inv by (intro upt_split) simp
        have m: "max (a + 1) 1 = a + 1" by simp
        show ?thesis unfolding unf ih split m by simp
      qed
    qed
  qed
qed


lemma retryLoop_last:
  "int a \<le> max_retries cfg \<Longrightarrow>
     (case op (invoked (retryLoop op cfg sr a le sl) - 1) of
        Inr v \<Rightarrow> settled (retryLoop op cfg sr a le sl) = Inr v
      | Inl e \<Rightarrow> settled (retryLoop op cfg sr a le sl) = Inl (Some e)
               \<and> (abortsRetry sr e
                  \<or> int (invoked (retryLoop op cfg sr a le sl)) = max_retries cfg + 1))
   \<and> (\<forall>j. a \<le> j \<and> j + 1 < invoked (retryLoop op cfg sr a le sl)
          \<longrightarrow> (\<exists>e. op j = Inl e \<and> \<not> abortsRetry sr e))"
proof (induction op cfg sr a le sl rule: retryLoop.induct)
  case (1 op cfg sr a le sl)
  note le = \<open>int a \<le> max_retries cfg\<close>
  show ?case
  proof (cases "op a")
    case (Inr v)
    with le have "retryLoop op cfg sr a le sl =
        \<lparr>settled = Inr v, invoked = a + 1,
         sleeps = (if 0 < a then sl @ [calculateDelay cfg a] else sl)\<rparr>"
      by (subst retryLoop.simps) (simp add: Let_def)
    with Inr show ?thesis by auto
  next
    case (Inl e)
    show ?thesis
    proof (cases "abortsRetry sr e \<or> int a \<ge> max_retries cfg")
      case True
      with le Inl have "retryLoop op cfg sr a le sl =
          \<lparr>settled = Inl (Some e), invoked = a + 1,
           sleeps = (if 0 < a then sl @ [calculateDelay cfg a] else sl)\<rparr>"
        by (subst retryLoop.simps) (auto simp add: Let_def)
      with Inl True le show ?thesis by auto
    next
      case False
      let ?sl1 = "if 0 < a then sl @ [calculateDelay cfg a] else sl"
      let ?r = "retryLoop op cfg sr (a + 1) (Some e) ?sl1"
      from False have nxt: "int (a + 1) \<le> max_retries cfg" by simp
      from False have na: "\<not> abortsRetry sr e" and nm: "\<not> max_retries cfg \<le> int a"
        by simp_all
      have unf: "retryLoop op cfg sr a le sl = ?r"
        using le Inl na nm by (subst retryLoop.simps) (simp add: Let_def)
      note ih = "1.IH" [OF le refl Inl na nm nxt]
      have "\<And>j. a \<le> j \<Longrightarrow> j + 1 < invoked ?r \<Longrightarrow> \<exists>e. op j = Inl e \<and> \<not> abortsRetry sr e"
      proof -
        fix j assume j: "a \<le> j" "j + 1 < invoked ?r"
        show "\<exists>e. op j = Inl e \<and> \<not> abortsRetry sr e"
        proof (cases "j = a")
          case True
          with Inl na show ?thesis by simp
        next
          case False
          with j have "a + 1 \<le> j" by simp
          with ih j show ?thesis by blast
        qed
      qed
      with ih show ?thesis unfolding unf by blast
    qed
  qed
qed

text \<open>
  Claim C5, as the code has it. \<open>execute\<close> invokes the operation at most \<open>max + 1\<close> times
  (not at all when \<open>max\<close> is negative). Before retry attempt \<open>n \<ge> 1\<close> it sleeps the base
  delay for the fixed strategy, the base delay times \<open>n\<close> for linear and the base delay
  times \<open>2 ^ (n - 1)\<close> for exponential, where the base delay is \<open>backoffMs\<close> when that is
  given and not zero, and 1000 otherwise. With \<open>max \<ge> 0\<close> the run ends at the first
  attempt that succeeds, or whose error \<open>shouldRetry\<close> rejects, or that is attempt
  \<open>max\<close>; when that attempt failed, the error thrown to the caller is the error of that
  last attempt.
\<close>

theorem C5_retry_policy:
  "invoked (execute op cfg sr) \<le> nat (max_retries cfg + 1)
   \<and> sleeps (execute op cfg sr) =
       map (\<lambda>n. case strategy cfg of
                   Fixed \<Rightarrow> baseDelay cfg
                 | Linear \<Rightarrow> baseDelay cfg * int n
                 | Exponential \<Rightarrow> baseDelay cfg * 2 ^ (n - 1))
           [1 ..< invoked (execute op cfg sr)]
   \<and> baseDelay cfg = (case backoffMs cfg of None \<Rightarrow> 1000 | Some b \<Rightarrow> if b = 0 then 1000 else b)
   \<and> (0 \<le> max_retries cfg \<longrightarrow>
        (case op (invoked (execute op cfg sr) - 1) of
           Inr v \<Rightarrow> settled (execute op cfg sr) = Inr v
         | Inl e \<Rightarrow> settled (execute op cfg sr) = Inl (Some e)
                  \<and> (abortsRetry sr e
                     \<or> int (invoked (execute op cfg sr)) = max_retries cfg + 1))
        \<and> (\<forall>j. j + 1 < invoked (execute op cfg sr)
               \<longrightarrow> (\<exists>e. op j = Inl e \<and> \<not> abortsRetry sr e)))
   \<and> (max_retries cfg < 0 \<longrightarrow> invoked (execute op cfg sr) = 0)"
proof -
  have a: "invoked (execute op cfg sr) \<le> nat (max_retries cfg + 1)"
    using retryLoop_invocations [of op cfg sr 0 None "[]"] by (simp add: execute_def)
  have cd: "calculateDelay cfg = (\<lambda>n. case strategy cfg of
                   Fixed \<Rightarrow> baseDelay cfg
                 | Linear \<Rightarrow> baseDelay cfg * int n
                 | Exponential \<Rightarrow> baseDelay cfg * 2 ^ (n - 1))"
    by (rule ext) (simp add: calculateDelay_def split: RetryStrategy.splits)
  have b: "sleeps (execute op cfg sr) =
       map (calculateDelay cfg) [1 ..< invoked (execute op cfg sr)]"
    using retryLoop_sleeps [of op cfg sr 0 None "[]"] by (simp add: execute_def)
  have c: "0 \<le> max_retries cfg \<Longrightarrow>
        (case op (invoked (execute op cfg sr) - 1) of
           Inr v \<Rightarrow> settled (execute op cfg sr) = Inr v
         | Inl e \<Rightarrow> settled (execute op cfg sr) = Inl (Some e)
                  \<and> (abortsRetry sr e
                     \<or> int (invoked (execute op cfg sr)) = max_retries cfg + 1))
        \<and> (\<forall>j. j + 1 < invoked (execute op cfg sr)
               \<longrightarrow> (\<exists>e. op j = Inl e \<and> \<not> abortsRetry sr e))"
    using retryLoop_last [of 0 cfg op sr None "[]"] unfolding execute_def by simp
  have d: "max_retries cfg < 0 \<Longrightarrow> invoked (execute op cfg sr) = 0"
    using a by simp
  show ?thesis
    using a b c d unfolding cd by (simp add: baseDelay_def)
qed

theorem C5_retry_policy_witness:
  "0 \<le> max_retries threeRetries
   \<and> invoked (execute alwaysFails threeRetries None) = 4
   \<and> sleeps (execute alwaysFails threeRetries None) = [100, 200, 400]
   \<and> settled (execute alwaysFails threeRetries None) = Inl (Some 3)
   \<and> max_retries negativeMax < 0
   \<and> invoked (execute alwaysFails negativeMax None) = 0"
proof -
  have m: "0 \<le> max_retries threeRetries" by (simp add: threeRetries_def)
  have i: "invoked (execute alwaysFails threeRetries None) = 4"
    by (simp add: execute_def retryLoop.simps alwaysFails_def threeRetries_def
        abortsRetry_def)
  have u: "[1 ..< 4] = [1, 2, 3::nat]" by (simp add: upt_rec)
  have n: "max_retries negativeMax < 0" by (simp add: negativeMax_def)
  have zero: "invoked (execute alwaysFails negativeMax None) = 0"
    using C5_retry_policy [of alwaysFails negativeMax None] n by blast
  have pos: "invoked (execute alwaysFails threeRetries None) = 4
      \<and> sleeps (execute alwaysFails threeRetries None) = [100, 200, 400]
      \<and> settled (execute alwaysFails threeRetries None) = Inl (Some 3)"
    using C5_retry_policy [of alwaysFails threeRetries None] m
    unfolding i u
    by (simp add: alwaysFails_def threeRetries_def baseDelay_def)
  from m n zero pos show ?thesis by blast
qed

text \<open>
  Claim C5 as it is written fails for a zero backoff: the fixed-strategy policy with
  \<open>backoffMs = 0\<close> sleeps 1000ms before its retry, not \<open>backoffMs\<close>.
\<close>

theorem C5_counterexample:
  "backoffMs zeroBackoff = Some 0 \<and> strategy zeroBackoff = Fixed
   \<and> invoked (execute flakyOnce zeroBackoff None) = 2
   \<and> sleeps (execute flakyOnce zeroBackoff None) = [1000]"
  by (simp add: execute_def retryLoop.simps flakyOnce_def zeroBackoff_def abortsRetry_def
      calculateDelay_def baseDelay_def)

section \<open>Cache manager: reads in the memory tier\<close>

lemma nodeCacheGet_after_set:
  assumes "ttlSeconds = 0 \<or> now' \<le> now + ttlSeconds * 1000"
  shows "nodeCacheGet (nodeCacheSet cache k val ttlSeconds now) k now' =
         (val, nodeCacheSet cache k val ttlSeconds now)"
  using assms by (auto simp add: nodeCacheGet_def nodeCacheSet_def)

lemma cacheGet_memory_absent:
  assumes "memoryCache cm k = None"
  shows "cacheGet cm k Memory now = (JNull, Miss, cm)"
  using assms by (simp add: cacheGet_def nodeCacheGet_def)

lemma cacheGet_memory_after_set:
  assumes "ttlSeconds = 0 \<or> now' \<le> now + ttlSeconds * 1000"
  shows "cacheGet (snd (cacheSet cm k val ttlSeconds Memory now)) k Memory now' =
         (if truthy val then (val, Hit, snd (cacheSet cm k val ttlSeconds Memory now))
          else (JNull, Miss, snd (cacheSet cm k val ttlSeconds Memory now)))"
proof -
  have "truthy val \<Longrightarrow> val \<noteq> JNull" by (cases val) simp_all
  then show ?thesis
    by (simp add: cacheGet_def cacheSet_def nodeCacheGet_after_set [OF assms])
qed

text \<open>
  Claim C10. In the memory tier, a \<open>get\<close> that follows \<open>set(k, v)\<close> before the entry
  expires returns \<open>v\<close> (a hit) when \<open>v\<close> is truthy and \<open>null\<close> (a miss) when \<open>v\<close> is falsy,
  as 0, the empty string, false and null are; the value and the event are then the ones
  a \<open>get\<close> of a key that is not cached gives, so the result of \<open>get\<close> does not tell a
  cached falsy value from an absent key.
\<close>

theorem C10_falsy_value_reads_as_miss:
  assumes "ttlSeconds = 0 \<or> now' \<le> now + ttlSeconds * 1000"
  shows "fst (cacheSet cm k val ttlSeconds Memory now) = True
       \<and> gotValue (cacheGet (snd (cacheSet cm k val ttlSeconds Memory now)) k Memory now') =
           (if truthy val then val else JNull)
       \<and> gotEvent (cacheGet (snd (cacheSet cm k val ttlSeconds Memory now)) k Memory now') =
           (if truthy val then Hit else Miss)
       \<and> (\<not> truthy val \<longrightarrow>
            (\<forall>cm0. memoryCache cm0 k = None \<longrightarrow>
               gotValue (cacheGet cm0 k Memory now') =
                 gotValue (cacheGet (snd (cacheSet cm k val ttlSeconds Memory now)) k Memory now')
             \<and> gotEvent (cacheGet cm0 k Memory now') =
                 gotEvent (cacheGet (snd (cacheSet cm k val ttlSeconds Memory now)) k Memory now')))
       \<and> \<not> truthy (JNum 0) \<and> \<not> truthy (JStr '''') \<and> \<not> truthy (JBool False)
       \<and> \<not> truthy JNull"
  unfolding cacheGet_memory_after_set [OF assms]
  by (simp add: cacheGet_memory_absent gotValue_def gotEvent_def cacheSet_def)

theorem C10_falsy_value_reads_as_miss_witness:
  "((300::int) = 0 \<or> (10::int) \<le> 0 + 300 * 1000)
   \<and> gotValue (cacheGet (snd (cacheSet emptyCache ''make'' (JStr ''Toyota'') 300 Memory 0))
        ''make'' Memory 10) = JStr ''Toyota''
   \<and> gotValue (cacheGet (snd (cacheSet emptyCache ''count'' (JNum 0) 300 Memory 0))
        ''count'' Memory 10) = JNull
   \<and> gotEvent (cacheGet (snd (cacheSet emptyCache ''count'' (JNum 0) 300 Memory 0))
        ''count'' Memory 10) = Miss
   \<and> gotValue (cacheGet emptyCache ''count'' Memory 10) = JNull"
proof -
  have h: "(300::int) = 0 \<or> (10::int) \<le> 0 + 300 * 1000" by simp
  have e: "memoryCache emptyCache ''count'' = None" by (simp add: emptyCache_def)
  show ?thesis
    using C10_falsy_value_reads_as_miss [OF h, of emptyCache "''make''" "JStr ''Toyota''"]
      C10_falsy_value_reads_as_miss [OF h, of emptyCache "''count''" "JNum 0"] e
    by simp
qed

section \<open>Cache manager: entries with a time to live\<close>

text \<open>What holds of an entry set with \<open>ttlSeconds = 1\<close> in each tier: a truthy value in
  the memory tier, and any value in a storage tier of a browser, is read back until
  one second has passed and is a miss, removed from the tier, after that.\<close>

lemma memory_ttl_one:
  assumes "truthy val" and "0 \<le> now"
  shows "now' \<le> now + 1000 \<Longrightarrow>
           gotValue (cacheGet (snd (cacheSet cm k val 1 Memory now)) k Memory now') = val"
    and "now' > now + 1000 \<Longrightarrow>
           gotValue (cacheGet (snd (cacheSet cm k val 1 Memory now)) k Memory now') = JNull
         \<and> gotEvent (cacheGet (snd (cacheSet cm k val 1 Memory now)) k Memory now') = Miss
         \<and> memoryCache (gotManager
              (cacheGet (snd (cacheSet cm k val 1 Memory now)) k Memory now')) k = None"
  using assms
  by (simp_all add: cacheGet_def cacheSet_def nodeCacheGet_def nodeCacheSet_def
      gotValue_def gotEvent_def gotManager_def)

lemma localStorage_ttl_one:
  assumes "windowDefined cm" and "storageWritable cm"
  shows "now' \<le> now + 1000 \<Longrightarrow>
           gotValue (cacheGet (snd (cacheSet cm k val 1 LocalStorage now)) k LocalStorage now')
             = jsonRoundTrip val"
    and "now' > now + 1000 \<Longrightarrow>
           gotValue (cacheGet (snd (cacheSet cm k val 1 LocalStorage now)) k LocalStorage now')
             = JNull
         \<and> gotEvent (cacheGet (snd (cacheSet cm k val 1 LocalStorage now)) k LocalStorage now')
             = Miss
         \<and> localStorage (gotManager
              (cacheGet (snd (cacheSet cm k val 1 LocalStorage now)) k LocalStorage now'))
              (localStoragePrefix @ k) = None"
  using assms
  by (simp_all add: cacheGet_def cacheSet_def getFromLocalStorage_def setToLocalStorage_def
      gotValue_def gotEvent_def gotManager_def)

text \<open>
  Claim C9 at the input where the code departs from it. In the memory tier (the default
  tier) the entry \<open>set("count", 0, 1)\<close> is stored, and the \<open>get\<close> that follows at once
  returns \<open>null\<close> and reports a miss instead of returning 0. The same calls on the
  \<open>localStorage\<close> tier of a browser return 0 and report a hit.
\<close>

theorem C9_falsy_entry_not_returned:
  "fst (cacheSet emptyCache ''count'' (JNum 0) 1 Memory 0) = True
   \<and> memoryCache (snd (cacheSet emptyCache ''count'' (JNum 0) 1 Memory 0)) ''count''
       = Some \<lparr>data_v = JNum 0, data_t = 1000\<rparr>
   \<and> gotValue (cacheGet (snd (cacheSet emptyCache ''count'' (JNum 0) 1 Memory 0))
        ''count'' Memory 0) = JNull
   \<and> gotEvent (cacheGet (snd (cacheSet emptyCache ''count'' (JNum 0) 1 Memory 0))
        ''count'' Memory 0) = Miss
   \<and> gotValue (cacheGet (snd (cacheSet browserCache ''count'' (JNum 0) 1 LocalStorage 0))
        ''count'' LocalStorage 0) = JNum 0
   \<and> gotEvent (cacheGet (snd (cacheSet browserCache ''count'' (JNum 0) 1 LocalStorage 0))
        ''count'' LocalStorage 0) = Hit"
  by (simp add: cacheGet_def cacheSet_def nodeCacheGet_def nodeCacheSet_def
      getFromLocalStorage_def setToLocalStorage_def emptyCache_def browserCache_def
      gotValue_def gotEvent_def)

section \<open>Rate limiter: three calls per second\<close>



















section \<open>Orchestrator: sequences\<close>

text \<open>What a sequence does run: the calls follow the list of tool ids in order, one
  result per call.\<close>

lemma sequenceLoop_calls:
  "\<exists>n \<le> length tids.
     map fst (runCalls (sequenceLoop orch tids ctx continueOnError run)) =
       map fst (runCalls run) @ take n tids
   \<and> length (runResults (sequenceLoop orch tids ctx continueOnError run)) =
       length (runResults run) + n
   \<and> (continueOnError \<longrightarrow> n = length tids)"
proof (induction tids arbitrary: ctx run)
  case Nil
  then show ?case by simp
next
  case (Cons tid tids)
  show ?case
  proof (cases "executeTool orch tid ctx (runWorld run)")
    case (Pair r w1)
    show ?thesis
    proof (cases r)
      case (Inr result)
      let ?run1 = "\<lparr>runResults = runResults run @ [result],
                      runCalls = runCalls run @ [(tid, ctx)], runWorld = w1\<rparr>"
      let ?ctx1 = "if success result \<and> truthy (resultData result)
                   then ctx\<lparr>contextState := spread (contextState ctx) (resultData result),
                          previousResults := resultData result\<rparr>
                   else ctx"
      from Cons.IH [of ?ctx1 ?run1] obtain n where
        n: "n \<le> length tids"
        "map fst (runCalls (sequenceLoop orch tids ?ctx1 continueOnError ?run1)) =
           map fst (runCalls ?run1) @ take n tids"
        "length (runResults (sequenceLoop orch tids ?ctx1 continueOnError ?run1)) =
           length (runResults ?run1) + n"
        "continueOnError \<longrightarrow> n = length tids"
        by blast
      have eq: "sequenceLoop orch (tid # tids) ctx continueOnError run =
                sequenceLoop orch tids ?ctx1 continueOnError ?run1"
        using Pair Inr by (simp add: Let_def)
      show ?thesis
        unfolding eq using n by (intro exI [of _ "Suc n"]) simp
    next
      case (Inl err)
      let ?run1 = "\<lparr>runResults = runResults run
                        @ [\<lparr>success = False, resultData = JUndefined, resultError = Some err\<rparr>],
                      runCalls = runCalls run @ [(tid, ctx)], runWorld = w1\<rparr>"
      show ?thesis
      proof (cases continueOnError)
        case True
        from Cons.IH [of ctx ?run1] obtain n where
          n: "n \<le> length tids"
          "map fst (runCalls (sequenceLoop orch tids ctx continueOnError ?run1)) =
             map fst (runCalls ?run1) @ take n tids"
          "length (runResults (sequenceLoop orch tids ctx continueOnError ?run1)) =
             length (runResults ?run1) + n"
          "continueOnError \<longrightarrow> n = length tids"
          by blast
        have eq: "sequenceLoop orch (tid # tids) ctx continueOnError run =
                  sequenceLoop orch tids ctx continueOnError ?run1"
          using Pair Inl True by (simp add: Let_def)
        show ?thesis
          unfolding eq using n by (intro exI [of _ "Suc n"]) simp
      next
        case False
        have eq: "sequenceLoop orch (tid # tids) ctx continueOnError run = ?run1"
          using Pair Inl False by (simp add: Let_def)
        show ?thesis
          unfolding eq using False by (intro exI [of _ "Suc 0"]) simp
      qed
    qed
  qed
qed

text \<open>A successful result with truthy data is spread over the state of the context
  handed to the next action; an action that throws ends the sequence unless
  \<open>continueOnError\<close> is set.\<close>

lemma sequence_threads_data:
  assumes "executeTool orch tid ctx w = (Inr r, w1)" and "success r" and "truthy (resultData r)"
  shows "executeSequence orch (tid # tids) ctx continueOnError w =
         sequenceLoop orch tids
           (ctx\<lparr>contextState := spread (contextState ctx) (resultData r),
                previousResults := resultData r\<rparr>)
           continueOnError \<lparr>runResults = [r], runCalls = [(tid, ctx)], runWorld = w1\<rparr>"
  using assms by (simp add: executeSequence_def)

lemma sequence_stops_on_throw:
  assumes "executeTool orch tid ctx w = (Inl err, w1)"
  shows "executeSequence orch (tid # tids) ctx False w =
         \<lparr>runResults = [\<lparr>success = False, resultData = JUndefined, resultError = Some err\<rparr>],
          runCalls = [(tid, ctx)], runWorld = w1\<rparr>"
  using assms by (simp add: executeSequence_def)

text \<open>
  Claim C8 at the input where the code departs from it. In the sequence
  \<open>["fetchMake", "fetchModel"]\<close>, run without \<open>continueOnError\<close>, the first action fails:
  its executor catches the network error and returns a result with \<open>success = false\<close>.
  The sequence does not stop there: \<open>fetchModel\<close> is executed as well, with the context
  unchanged, and two results come back.
\<close>

theorem C8_sequence_runs_on_after_failed_result:
  "map fst (runCalls (executeSequence makeThenModel [''fetchMake'', ''fetchModel'']
       launchContext False 0)) = [''fetchMake'', ''fetchModel'']
   \<and> map success (runResults (executeSequence makeThenModel [''fetchMake'', ''fetchModel'']
       launchContext False 0)) = [False, True]
   \<and> runWorld (executeSequence makeThenModel [''fetchMake'', ''fetchModel'']
       launchContext False 0) = 2"
  by (simp add: executeSequence_def executeTool_def executorExecute_def makeThenModel_def
      Let_def)

section \<open>Request deduplicator: calls in flight\<close>

text \<open>When the second call is made after the first one has registered its request and
  before that request settles, the operation is invoked once and both callers receive
  the one result.\<close>

lemma later_call_joins:
  "started (sameTick (sameTick newDeduplicator [(1, ''k'')] 0) [(2, ''k'')] 5) = [(''k'', 1)]
   \<and> received (settle (sameTick (sameTick newDeduplicator [(1, ''k'')] 0) [(2, ''k'')] 5)
        0 (Inr r)) 1 = Some (Inr r)
   \<and> received (settle (sameTick (sameTick newDeduplicator [(1, ''k'')] 0) [(2, ''k'')] 5)
        0 (Inr r)) 2 = Some (Inr r)"
  by (simp add: sameTick_def runMicrotasks_def callExecute_def resumeExecute_def
      newDeduplicator_def settle_def completeRequest_def Let_def)

text \<open>
  Claim C3 at the input where the code departs from it. Two calls \<open>execute("k", op)\<close>
  made one after the other in the same synchronous stretch, as \<open>Promise.all\<close> over two
  calls makes them, both pass the check before either has registered a request. The
  operation is invoked twice, once per caller, and each caller receives the outcome of
  its own invocation: here the first one \<open>''first''\<close>, the second one \<open>''second''\<close>.
\<close>

theorem C3_same_tick_calls_invoke_twice:
  "started (sameTick newDeduplicator [(1, ''k''), (2, ''k'')] 0) = [(''k'', 1), (''k'', 2)]
   \<and> length (started (sameTick newDeduplicator [(1, ''k''), (2, ''k'')] 0)) = 2
   \<and> received (settle (settle (sameTick newDeduplicator [(1, ''k''), (2, ''k'')] 0)
        0 (Inr ''first'')) 1 (Inr ''second'')) 1 = Some (Inr ''first'')
   \<and> received (settle (settle (sameTick newDeduplicator [(1, ''k''), (2, ''k'')] 0)
        0 (Inr ''first'')) 1 (Inr ''second'')) 2 = Some (Inr ''second'')"
  by (simp add: sameTick_def runMicrotasks_def callExecute_def resumeExecute_def
      newDeduplicator_def settle_def completeRequest_def Let_def)

section \<open>State store: properties of documents\<close>

lemma map_of_putProperty:
  "map_of (putProperty kvs k x) k' = (if k' = k then Some x else map_of kvs k')"
  by (induction kvs) auto

lemma key_iff_map_of: "(k \<in> fst ` set kvs) = (map_of kvs k \<noteq> None)"
  by (simp add: map_of_eq_None_iff)

lemma keys_putProperty:
  "(k' \<in> fst ` set (putProperty kvs k x)) = (k' = k \<or> k' \<in> fst ` set kvs)"
  unfolding key_iff_map_of map_of_putProperty by simp

lemma map_of_map_values:
  "map_of (map (map_prod id f) kvs) k = map_option f (map_of kvs k)"
  by (induction kvs) auto

lemma keys_map_values:
  "(k \<in> fst ` set (map (map_prod id f) kvs)) = (k \<in> fst ` set kvs)"
  unfolding key_iff_map_of map_of_map_values by simp

lemma isObject_not_nullish: "isObject d \<Longrightarrow> \<not> isNullish d"
  by (cases d) (auto simp add: isObject_def isNullish_def)

lemma objectId_isObject: "(objectId d = None) = (\<not> isObject d)"
  by (cases d) (auto simp add: isObject_def)

lemma objectId_assignIn [simp]: "objectId (assignIn t k x d) = objectId d"
  by (cases d) (auto split: option.splits)

lemma isObject_assignIn [simp]: "isObject (assignIn t k x d) = isObject d"
  by (cases d) (auto simp add: isObject_def split: option.splits)

lemma isArray_assignIn [simp]: "isArray (assignIn t k x d) = isArray d"
  by (cases d) (auto simp add: isArray_def split: option.splits)

lemma isNullish_assignIn [simp]: "isNullish (assignIn t k x d) = isNullish d"
  by (cases d) (auto simp add: isNullish_def split: option.splits)

text \<open>Reading a property that is no index after an assignment of such a property.\<close>

lemma getProperty_assignIn:
  assumes "arrayIndex k = None" and "arrayIndex k' = None"
  shows "getProperty (assignIn t k x d) k' =
           (if objectId d = Some t \<and> k' = k then x else assignIn t k x (getProperty d k'))"
  using assms
  by (cases d)
     (simp_all add: map_of_putProperty map_of_map_values split: option.splits)

lemma hasProperty_assignIn:
  assumes "arrayIndex k = None"
  shows "hasProperty (assignIn t k x d) k' =
           (hasProperty d k' \<or> (objectId d = Some t \<and> k' = k))"
  using assms
  by (cases d) (auto simp add: keys_putProperty keys_map_values simp del: set_map)

lemma isArray_cloneDeep [simp]: "isArray (cloneDeep n d) = isArray d"
  by (cases d) (auto simp add: isArray_def)

lemma isNullish_cloneDeep [simp]: "isNullish (cloneDeep n d) = isNullish d"
  by (cases d) (auto simp add: isNullish_def)

lemma cloneDeep_undefined [simp]: "(cloneDeep n d = DUndefined) = (d = DUndefined)"
  by (cases d) auto

lemma getProperty_cloneDeep:
  "\<not> isArray d \<Longrightarrow> getProperty (cloneDeep n d) k = cloneDeep n (getProperty d k)"
  by (cases d) (auto simp add: isArray_def map_of_map_values split: option.splits)

lemma hasProperty_cloneDeep:
  "\<not> isArray d \<Longrightarrow> hasProperty (cloneDeep n d) k = hasProperty d k"
  by (cases d) (simp_all add: isArray_def keys_map_values del: set_map)

section \<open>State store: new objects\<close>

lemma foldr_max_ge: "c \<le> foldr max (map f xs) (c::nat)"
  by (induction xs) (simp_all add: le_max_iff_disj)

lemma foldr_max_mem: "x \<in> set xs \<Longrightarrow> f x \<le> foldr max (map f xs) (c::nat)"
  by (induction xs) (auto simp add: le_max_iff_disj)

lemma idBound_le_docBound: "i \<in> set (objectIds d) \<Longrightarrow> idBound i \<le> docBound d"
  unfolding docBound_def by (rule foldr_max_mem)

lemma docBound_le_freshNumber: "docBound (currentState s) \<le> freshNumber s given"
  unfolding freshNumber_def by (rule foldr_max_mem) (simp add: storeDocs_def)

lemma given_le_freshNumber: "x \<in> set given \<Longrightarrow> docBound x \<le> freshNumber s given"
  unfolding freshNumber_def by (rule foldr_max_mem) simp

lemma not_made_of_bound: "idBound i \<le> n \<Longrightarrow> n \<le> m \<Longrightarrow> i \<noteq> Made m"
  by (cases i) auto

lemma not_copy_of_bound: "idBound i \<le> n \<Longrightarrow> i \<noteq> Copy n j"
  by (cases i) auto

lemma objectIds_member:
  "(k, x) \<in> set kvs \<Longrightarrow>
   set (objectIds x) \<subseteq> set (concat (map snd (map (map_prod id objectIds) kvs)))"
  by (induction kvs) auto

lemma objectIds_getProperty: "set (objectIds (getProperty d k)) \<subseteq> set (objectIds d)"
proof (cases d)
  case (DObj i kvs)
  show ?thesis
  proof (cases "map_of kvs k")
    case None
    with DObj show ?thesis by simp
  next
    case (Some x)
    then have "(k, x) \<in> set kvs" by (rule map_of_SomeD)
    from objectIds_member [OF this] DObj Some show ?thesis by auto
  qed
next
  case (DArr i es ps)
  show ?thesis
  proof (cases "arrayIndex k")
    case (Some n)
    show ?thesis
    proof (cases "n < length es")
      case True
      then have "es ! n \<in> set es" by simp
      with DArr Some True show ?thesis by auto
    next
      case False
      with DArr Some show ?thesis by simp
    qed
  next
    case None
    show ?thesis
    proof (cases "map_of ps k")
      case None
      with DArr \<open>arrayIndex k = None\<close> show ?thesis by simp
    next
      case (Some x)
      then have "(k, x) \<in> set ps" by (rule map_of_SomeD)
      from objectIds_member [OF this] DArr Some \<open>arrayIndex k = None\<close> show ?thesis by auto
    qed
  qed
next
  case (DStr s)
  then show ?thesis by (simp split: option.splits)
qed simp_all

lemma objectId_mem: "objectId d = Some t \<Longrightarrow> t \<in> set (objectIds d)"
  by (cases d) auto

lemma mutateAll_Nil [simp]: "mutateAll [] d = d"
  by (simp add: mutateAll_def)

lemma mutateAll_Cons [simp]: "mutateAll (m # ms) d = mutateAll ms (mutate m d)"
  by (simp add: mutateAll_def)

lemma mutateAll_append [simp]: "mutateAll (ms @ ms') d = mutateAll ms' (mutateAll ms d)"
  by (simp add: mutateAll_def)

lemma mutate_primitive: "objectIds d = [] \<Longrightarrow> mutate m d = d"
  by (cases m; cases d) simp_all

lemma mutateAll_primitive: "objectIds d = [] \<Longrightarrow> mutateAll ms d = d"
  by (induction ms) (simp_all add: mutate_primitive)

lemma plain_object: "isObject d \<Longrightarrow> \<not> isArray d \<Longrightarrow> \<exists>i kvs. d = DObj i kvs"
  by (cases d) (auto simp add: isObject_def isArray_def)

section \<open>State store: fields\<close>

lemma everywhere_fields [simp]:
  "currentState (everywhere f s) = f (currentState s)"
  "history (everywhere f s) = map (onEvent f) (history s)"
  "snapshots (everywhere f s) = map (map_prod id (onSnapshot f)) (snapshots s)"
  "storeConfig (everywhere f s) = storeConfig s"
  "eventCounter (everywhere f s) = eventCounter s"
  "objectCounter (everywhere f s) = objectCounter s"
  by (simp_all add: everywhere_def)

lemma eventId_onEvent [simp]: "eventId (onEvent f e) = eventId e"
  by (simp add: onEvent_def)

lemma addToHistory_fields [simp]:
  "currentState (addToHistory s e) = currentState s"
  "snapshots (addToHistory s e) = snapshots s"
  "storeConfig (addToHistory s e) = storeConfig s"
  "eventCounter (addToHistory s e) = eventCounter s"
  "objectCounter (addToHistory s e) = objectCounter s"
  by (simp_all add: addToHistory_def Let_def)

lemma history_addToHistory:
  "history (addToHistory s e) =
     (if int (length (history s)) < maxHistorySize (storeConfig s)
      then history s @ [e] else tl (history s @ [e]))"
  by (simp add: addToHistory_def Let_def)

section \<open>State store: writing a path\<close>

lemma toyota_path_facts:
  "stripRoot (patchPath toyotaPatch) = ''form.make.value''"
  "patchPath toyotaPatch \<noteq> ''$''" "patchPath toyotaPatch \<noteq> ''''"
  "patchOp toyotaPatch = Replace" "patchValue toyotaPatch = DStr ''Toyota''"
  "\<not> isPlainProp ''form.make.value''" "isDeepProp ''form.make.value''"
  "stringToPath ''form.make.value'' = [''form'', ''make'', ''value'']"
  "arrayIndex ''form.make.value'' = None"
  "\<not> unsafeKey ''form.make.value''"
  "\<not> unsafeKey ''form''" "\<not> unsafeKey ''make''" "\<not> unsafeKey ''value''"
  "arrayIndex ''form'' = None" "arrayIndex ''make'' = None" "arrayIndex ''value'' = None"
  by (simp_all add: toyotaPatch_def stripRoot_def isPlainProp_def isWordChar_def
      isDeepProp_def stringToPath_def arrayIndex_def isDigit_def unsafeKey_def)

text \<open>The write of a string under \<open>form.make.value\<close> into a document that is an object
  and has no array under \<open>form\<close> or \<open>form.make\<close>, with new objects numbered from \<open>n\<close>
  on: the assignments, and what the deep copy number \<open>m\<close> of the document then holds.\<close>

lemma toyota_write:
  fixes d :: docval and v :: string and n m :: nat
  defines "ms \<equiv> fst (lodashSet d ''form.make.value'' (DStr v) n)"
  assumes root: "isObject d" "\<not> isArray d"
    and na1: "\<not> isArray (getProperty d ''form'')"
    and na2: "\<not> isArray (getProperty (getProperty d ''form'') ''make'')"
    and fresh: "docBound d \<le> n"
  shows "settlePlan [] ms = Some ms"
    and "isObject (mutateAll ms d)"
    and "lodashGet (cloneDeep m (mutateAll ms d)) ''form.make.value'' = DStr v"
    and "\<not> hasProperty d ''form.make.value'' \<Longrightarrow>
         baseGet (cloneDeep m (mutateAll ms d)) [''form'', ''make'', ''value''] = DStr v"
proof -
  note f = toyota_path_facts
  let ?p = "''form.make.value''"
  let ?x = "DStr v"
  from plain_object [OF root] obtain r kvs where d: "d = DObj r kvs" by blast
  have rid: "objectId d = Some r" using d by simp
  have nn: "\<not> isNullish d" using root(1) by (rule isObject_not_nullish)
  have rb: "idBound r \<le> n"
    using idBound_le_docBound [of r d] fresh d by simp
  have all: "settlePlan [] ms = Some ms \<and> isObject (mutateAll ms d)
      \<and> lodashGet (cloneDeep m (mutateAll ms d)) ?p = ?x
      \<and> (\<not> hasProperty d ?p \<longrightarrow>
           baseGet (cloneDeep m (mutateAll ms d)) [''form'', ''make'', ''value''] = ?x)"
  proof (cases "hasProperty d ?p")
    case True
    with nn have cp: "castPath ?p d = [?p]" by (simp add: castPath_def isKey_def)
    have ms: "ms = [Assign r ?p ?x]"
      unfolding ms_def using root cp f(10) rid by (simp add: lodashSet_def)
    let ?d' = "assignIn r ?p ?x d"
    have hp: "hasProperty (cloneDeep m ?d') ?p"
      using root(2) rid f(9) by (simp add: hasProperty_cloneDeep hasProperty_assignIn)
    have nn': "\<not> isNullish (cloneDeep m ?d')" using nn by simp
    from hp nn' have cp': "castPath ?p (cloneDeep m ?d') = [?p]"
      by (simp add: castPath_def isKey_def)
    have rd: "getProperty (cloneDeep m ?d') ?p = ?x"
      using root(2) rid f(9) by (simp add: getProperty_cloneDeep getProperty_assignIn)
    show ?thesis
      unfolding ms using True root(1) nn' cp' rd by (simp add: lodashGet_def)
  next
    case False
    with f have cp: "castPath ?p d = [''form'', ''make'', ''value'']"
      by (simp add: castPath_def isKey_def)
    let ?o1 = "getProperty d ''form''"
    let ?o2 = "getProperty ?o1 ''make''"
    show ?thesis
    proof (cases "isObject ?o1")
      case o1: True
      from plain_object [OF o1 na1] obtain a kvs1 where o1eq: "?o1 = DObj a kvs1" by blast
      have aid: "objectId ?o1 = Some a" using o1eq by simp
      have "a \<in> set (objectIds d)"
        using objectIds_getProperty [of d "''form''"] objectId_mem [OF aid] by blast
      then have ab: "idBound a \<le> n"
        using idBound_le_docBound [of a d] fresh by simp
      show ?thesis
      proof (cases "isObject ?o2")
        case o2: True
        from plain_object [OF o2 na2] obtain b kvs2 where o2eq: "?o2 = DObj b kvs2" by blast
        have bid: "objectId ?o2 = Some b" using o2eq by simp
        have ms: "ms = [Assign b ''value'' ?x]"
          unfolding ms_def using root cp f rid aid bid o1 o2 by (simp add: lodashSet_def)
        let ?d' = "assignIn b ''value'' ?x d"
        have g1: "getProperty ?d' ''form'' = assignIn b ''value'' ?x ?o1"
          using f by (simp add: getProperty_assignIn)
        have g2: "getProperty (assignIn b ''value'' ?x ?o1) ''make'' = assignIn b ''value'' ?x ?o2"
          using f by (simp add: getProperty_assignIn)
        have g3: "getProperty (assignIn b ''value'' ?x ?o2) ''value'' = ?x"
          using f bid by (simp add: getProperty_assignIn)
        have c1: "getProperty (cloneDeep m ?d') ''form'' = cloneDeep m (assignIn b ''value'' ?x ?o1)"
          using root(2) g1 by (simp add: getProperty_cloneDeep)
        have c2: "getProperty (cloneDeep m (assignIn b ''value'' ?x ?o1)) ''make''
                    = cloneDeep m (assignIn b ''value'' ?x ?o2)"
          using na1 g2 by (simp add: getProperty_cloneDeep)
        have c3: "getProperty (cloneDeep m (assignIn b ''value'' ?x ?o2)) ''value'' = ?x"
          using na2 g3 by (simp add: getProperty_cloneDeep)
        have nh: "\<not> hasProperty (cloneDeep m ?d') ?p"
          using root(2) False f by (simp add: hasProperty_cloneDeep hasProperty_assignIn)
        with f have cp': "castPath ?p (cloneDeep m ?d') = [''form'', ''make'', ''value'']"
          by (simp add: castPath_def isKey_def)
        have n1: "\<not> isNullish (cloneDeep m ?d')" using nn by simp
        have n2: "\<not> isNullish (cloneDeep m (assignIn b ''value'' ?x ?o1))"
          using o1 by (simp add: isObject_not_nullish)
        have n3: "\<not> isNullish (cloneDeep m (assignIn b ''value'' ?x ?o2))"
          using o2 by (simp add: isObject_not_nullish)
        have rd: "baseGet (cloneDeep m ?d') [''form'', ''make'', ''value''] = ?x"
          using n1 n2 n3 c1 c2 c3 by simp
        show ?thesis
          unfolding ms using root(1) n1 cp' rd by (simp add: lodashGet_def)
      next
        case o2: False
        let ?F = "DObj (Made n) []"
        have ms: "ms = [Assign a ''make'' ?F, Assign (Made n) ''value'' ?x]"
          unfolding ms_def using root cp f rid aid o1 o2 by (simp add: lodashSet_def)
        have an: "a \<noteq> Made n" using ab by (rule not_made_of_bound) simp
        let ?d1 = "assignIn a ''make'' ?F d"
        let ?d' = "assignIn (Made n) ''value'' ?x ?d1"
        let ?q1 = "assignIn (Made n) ''value'' ?x (assignIn a ''make'' ?F ?o1)"
        let ?q2 = "DObj (Made n) [(''value'', ?x)]"
        have st: "settlePlan [] ms = Some ms"
          unfolding ms using an by simp
        have g1: "getProperty ?d' ''form'' = ?q1"
          using f by (simp add: getProperty_assignIn)
        have g2: "getProperty ?q1 ''make'' = ?q2"
          using f aid by (simp add: getProperty_assignIn)
        have c1: "getProperty (cloneDeep m ?d') ''form'' = cloneDeep m ?q1"
          using root(2) g1 by (simp add: getProperty_cloneDeep)
        have c2: "getProperty (cloneDeep m ?q1) ''make'' = cloneDeep m ?q2"
          using na1 g2 by (simp add: getProperty_cloneDeep)
        have nh: "\<not> hasProperty (cloneDeep m ?d') ?p"
          using root(2) False f by (simp add: hasProperty_cloneDeep hasProperty_assignIn)
        with f have cp': "castPath ?p (cloneDeep m ?d') = [''form'', ''make'', ''value'']"
          by (simp add: castPath_def isKey_def)
        have n1: "\<not> isNullish (cloneDeep m ?d')" using nn by simp
        have n2: "\<not> isNullish (cloneDeep m ?q1)"
          using o1 by (simp add: isObject_not_nullish)
        have rd: "baseGet (cloneDeep m ?d') [''form'', ''make'', ''value''] = ?x"
          using n1 n2 c1 c2 by (simp add: isNullish_def)
        show ?thesis
          using st unfolding ms using root(1) n1 cp' rd by (simp add: lodashGet_def)
      qed
    next
      case o1: False
      let ?F1 = "DObj (Made n) []"
      let ?F2 = "DObj (Made (Suc n)) []"
      have ms: "ms = [Assign r ''form'' ?F1, Assign (Made n) ''make'' ?F2,
                      Assign (Made (Suc n)) ''value'' ?x]"
        unfolding ms_def using root cp f rid o1
        by (simp add: lodashSet_def isObject_def)
      have rn: "r \<noteq> Made n" using rb by (rule not_made_of_bound) simp
      have rn1: "r \<noteq> Made (Suc n)" using rb by (rule not_made_of_bound) simp
      have st: "settlePlan [] ms = Some ms"
        unfolding ms using rn rn1 by simp
      let ?d1 = "assignIn r ''form'' ?F1 d"
      let ?d2 = "assignIn (Made n) ''make'' ?F2 ?d1"
      let ?d' = "assignIn (Made (Suc n)) ''value'' ?x ?d2"
      let ?q1 = "DObj (Made n) [(''make'', DObj (Made (Suc n)) [(''value'', ?x)])]"
      have g1: "getProperty ?d' ''form'' = ?q1"
        using f rid by (simp add: getProperty_assignIn)
      have c1: "getProperty (cloneDeep m ?d') ''form'' = cloneDeep m ?q1"
        using root(2) g1 by (simp add: getProperty_cloneDeep)
      have nh: "\<not> hasProperty (cloneDeep m ?d') ?p"
        using root(2) False f by (simp add: hasProperty_cloneDeep hasProperty_assignIn)
      with f have cp': "castPath ?p (cloneDeep m ?d') = [''form'', ''make'', ''value'']"
        by (simp add: castPath_def isKey_def)
      have n1: "\<not> isNullish (cloneDeep m ?d')" using nn by simp
      have rd: "baseGet (cloneDeep m ?d') [''form'', ''make'', ''value''] = ?x"
        using n1 c1 by (simp add: isNullish_def)
      show ?thesis
        using st unfolding ms using root(1) n1 cp' rd by (simp add: lodashGet_def)
    qed
  qed
  from all show "settlePlan [] ms = Some ms" by blast
  from all show "isObject (mutateAll ms d)" by blast
  from all show "lodashGet (cloneDeep m (mutateAll ms d)) ?p = ?x" by blast
  assume "\<not> hasProperty d ?p"
  with all show "baseGet (cloneDeep m (mutateAll ms d)) [''form'', ''make'', ''value''] = ?x"
    by blast
qed

text \<open>The call of \<open>applyPatches\<close> with the patch of the form example, on a document that
  is an object and has no array under \<open>form\<close> or \<open>form.make\<close>.\<close>

lemma applyPatches_toyota:
  fixes s :: StateStore and now later :: int
  defines "n \<equiv> Suc (freshNumber s [DStr ''Toyota''])"
  defines "ms \<equiv> fst (lodashSet (currentState s) ''form.make.value'' (DStr ''Toyota'') n)"
  assumes root: "isObject (currentState s)" "\<not> isArray (currentState s)"
    and na1: "\<not> isArray (getProperty (currentState s) ''form'')"
    and na2: "\<not> isArray (getProperty (getProperty (currentState s) ''form'') ''make'')"
  shows "\<exists>s2 e. applyPatches s [toyotaPatch] now later = Applied (addToHistory s2 e)
           \<and> currentState s2 = mutateAll ms (currentState s)
           \<and> history s2 = map (onEvent (mutateAll ms)) (history s)
           \<and> storeConfig s2 = storeConfig s
           \<and> eventId e = (now, eventCounter s + 1)
           \<and> patches e = [toyotaPatch]"
proof -
  note f = toyota_path_facts
  let ?T = "DStr ''Toyota''"
  have fresh: "docBound (currentState s) \<le> n"
    unfolding n_def using docBound_le_freshNumber [of s "[?T]"] by simp
  note w = toyota_write [OF root na1 na2 fresh, where v = "''Toyota''", folded ms_def]
  let ?s1 = "s\<lparr>objectCounter := n, eventCounter := eventCounter s + 1\<rparr>"
  obtain plan n' where ls: "lodashSet (currentState s) ''form.make.value'' ?T n = (plan, n')"
    by (cases "lodashSet (currentState s) ''form.make.value'' ?T n")
  then have plan: "plan = ms" by (simp add: ms_def)
  let ?s2 = "everywhere (mutateAll ms) (?s1\<lparr>objectCounter := n'\<rparr>)"
  have sv: "setValueAtPath ?s1 (patchPath toyotaPatch) ?T = Some (?s2, ms)"
    using f(1-3) ls plan w(1) by (simp add: setValueAtPath_def)
  have ap: "applyPatch ?s1 toyotaPatch = Some (?s2, ms)"
    using f(4,5) sv by (simp add: applyPatch_def)
  have keep: "onValue (mutateAll ms) toyotaPatch = toyotaPatch"
    using f(5) by (simp add: onValue_def mutateAll_primitive)
  have ab: "applyBatch ?s1 [] [toyotaPatch] = Some (?s2, [toyotaPatch])"
    using ap keep by simp
  have nu: "cloneDeep (freshNumber s [?T]) (currentState s) \<noteq> DUndefined"
    using root(1) by (auto simp add: isObject_def)
  have nu2: "currentState ?s2 \<noteq> DUndefined"
    using w(2) by (auto simp add: isObject_def)
  let ?e = "\<lparr>eventId = (now, eventCounter s + 1), eventTimestamp = later,
             patches = [toyotaPatch],
             eventMetadata = PatchesApplied (jsonOf (cloneDeep (freshNumber s [?T]) (currentState s)))
                               (jsonOf (currentState ?s2))\<rparr>"
  have "applyPatches s [toyotaPatch] now later = Applied (addToHistory ?s2 ?e)"
    using ab nu nu2 f(5)
    by (simp add: applyPatches_def generateEventId_def Let_def n_def)
  then show ?thesis by (intro exI [of _ ?s2] exI [of _ ?e]) simp
qed

text \<open>
  Claim C6, as the code has it. Take a store whose document is an object, not an array,
  with no array under \<open>form\<close> and none under \<open>form.make\<close>. Then \<open>applyPatches\<close> with the
  single patch \<open>replace $.form.make.value\<close> by \<open>"Toyota"\<close> returns, and afterwards the
  document that \<open>getCurrentState\<close> hands out holds \<open>"Toyota"\<close> at that path: \<open>_.get\<close> with
  the path that \<open>setValueAtPath\<close> hands to \<open>_.set\<close> returns it, and so does the walk
  along the keys \<open>form\<close>, \<open>make\<close>, \<open>value\<close> unless the document had a property whose
  name is the whole text \<open>form.make.value\<close>. The call appends one event, with the next
  event id, to the history, and when the history then holds more than
  \<open>maxHistorySize\<close> events the event at its front, the oldest, is evicted: the length
  of the history grows by one when it held fewer than \<open>maxHistorySize\<close> events, and
  stays as it was otherwise.
\<close>

theorem C6_replace_then_read:
  assumes "isObject (currentState s)" and "\<not> isArray (currentState s)"
    and "\<not> isArray (getProperty (currentState s) ''form'')"
    and "\<not> isArray (getProperty (getProperty (currentState s) ''form'') ''make'')"
  shows "\<exists>s'. applyPatches s [toyotaPatch] now later = Applied s'
       \<and> lodashGet (fst (getCurrentState s')) ''form.make.value'' = DStr ''Toyota''
       \<and> (\<not> hasProperty (currentState s) ''form.make.value'' \<longrightarrow>
            baseGet (fst (getCurrentState s')) [''form'', ''make'', ''value''] = DStr ''Toyota'')
       \<and> map eventId (history s') =
           (if int (length (history s)) < maxHistorySize (storeConfig s)
            then map eventId (history s) @ [(now, eventCounter s + 1)]
            else tl (map eventId (history s) @ [(now, eventCounter s + 1)]))
       \<and> length (history s') =
           (if int (length (history s)) < maxHistorySize (storeConfig s)
            then length (history s) + 1 else length (history s))"
proof -
  let ?n = "Suc (freshNumber s [DStr ''Toyota''])"
  let ?ms = "fst (lodashSet (currentState s) ''form.make.value'' (DStr ''Toyota'') ?n)"
  from applyPatches_toyota [OF assms, of now later]
  obtain s2 e where ap: "applyPatches s [toyotaPatch] now later = Applied (addToHistory s2 e)"
    and cs: "currentState s2 = mutateAll ?ms (currentState s)"
    and hs: "history s2 = map (onEvent (mutateAll ?ms)) (history s)"
    and cf: "storeConfig s2 = storeConfig s"
    and ei: "eventId e = (now, eventCounter s + 1)" by blast
  let ?s' = "addToHistory s2 e"
  have fresh: "docBound (currentState s) \<le> ?n"
    using docBound_le_freshNumber [of s "[DStr ''Toyota'']"] by simp
  note w = toyota_write [OF assms fresh, where v = "''Toyota''"]
  have gc: "fst (getCurrentState ?s') = cloneDeep (freshNumber ?s' []) (mutateAll ?ms (currentState s))"
    using cs by (simp add: getCurrentState_def Let_def)
  have a: "lodashGet (fst (getCurrentState ?s')) ''form.make.value'' = DStr ''Toyota''"
    unfolding gc by (rule w(3))
  have b: "\<not> hasProperty (currentState s) ''form.make.value'' \<longrightarrow>
            baseGet (fst (getCurrentState ?s')) [''form'', ''make'', ''value''] = DStr ''Toyota''"
    unfolding gc using w(4) by blast
  have len: "length (history s2) = length (history s)"
    unfolding hs by simp
  have pushed: "map eventId (history s2 @ [e]) = map eventId (history s) @ [(now, eventCounter s + 1)]"
    unfolding hs using ei by (simp add: comp_def)
  have c: "map eventId (history ?s') =
           (if int (length (history s)) < maxHistorySize (storeConfig s)
            then map eventId (history s) @ [(now, eventCounter s + 1)]
            else tl (map eventId (history s) @ [(now, eventCounter s + 1)]))"
    unfolding history_addToHistory cf len
    by (cases "int (length (history s)) < maxHistorySize (storeConfig s)")
       (simp_all only: if_True if_False map_tl pushed)
  have d: "length (history ?s') =
           (if int (length (history s)) < maxHistorySize (storeConfig s)
            then length (history s) + 1 else length (history s))"
    unfolding history_addToHistory cf len using len by simp
  from ap a b c d show ?thesis by blast
qed

theorem C6_replace_then_read_witness:
  "isObject (currentState formStore) \<and> \<not> isArray (currentState formStore)
   \<and> \<not> isArray (getProperty (currentState formStore) ''form'')
   \<and> \<not> isArray (getProperty (getProperty (currentState formStore) ''form'') ''make'')
   \<and> \<not> hasProperty (currentState formStore) ''form.make.value''
   \<and> (\<exists>s'. applyPatches formStore [toyotaPatch] 10 11 = Applied s'
          \<and> lodashGet (fst (getCurrentState s')) ''form.make.value'' = DStr ''Toyota''
          \<and> baseGet (fst (getCurrentState s')) [''form'', ''make'', ''value''] = DStr ''Toyota''
          \<and> map eventId (history s') = [(10, 1)]
          \<and> length (history s') = 1)"
proof -
  have o: "isObject (currentState formStore)" "\<not> isArray (currentState formStore)"
    by (simp_all add: formStore_def newStateStore_def Let_def formDocument_def isObject_def isArray_def)
  have a1: "\<not> isArray (getProperty (currentState formStore) ''form'')"
    by (simp add: formStore_def newStateStore_def Let_def formDocument_def isArray_def)
  have a2: "\<not> isArray (getProperty (getProperty (currentState formStore) ''form'') ''make'')"
    by (simp add: formStore_def newStateStore_def Let_def formDocument_def isArray_def)
  have n: "\<not> hasProperty (currentState formStore) ''form.make.value''"
    by (simp add: formStore_def newStateStore_def Let_def formDocument_def)
  have h: "history formStore = []" "maxHistorySize (storeConfig formStore) = 1000"
    "eventCounter formStore = 0"
    by (simp_all add: formStore_def newStateStore_def Let_def defaultStoreConfig_def)
  show ?thesis
    using C6_replace_then_read [OF o a1 a2, of 10 11] o a1 a2 n unfolding h by simp
qed

text \<open>
  Claim C6 as it is written fails on a store whose history is full: with
  \<open>maxHistorySize = 1\<close> and one event in the history, the patch leaves the history at
  length 1. It also fails on the document \<open>{form: []}\<close>: the patch is applied and
  logged, and the document that \<open>getCurrentState\<close> hands out has nothing at the path,
  because \<open>_.set\<close> has put \<open>make\<close> on the array as an extra property, which the deep
  copy drops.
\<close>

theorem C6_counterexample:
  "length (history fullHistoryStore) = 1
   \<and> maxHistorySize (storeConfig fullHistoryStore) = 1
   \<and> (case applyPatches fullHistoryStore [toyotaPatch] 20 21 of
         Applied s' \<Rightarrow> length (history s') = 1
       | Threw e s' \<Rightarrow> False
       | Cyclic \<Rightarrow> False)
   \<and> currentState listFormStore = DObj (Copy 0 (Given 0)) [(''form'', DArr (Copy 0 (Given 1)) [] [])]
   \<and> (case applyPatches listFormStore [toyotaPatch] 20 21 of
         Applied s' \<Rightarrow>
           lodashGet (fst (getCurrentState s')) ''form.make.value'' = DUndefined
           \<and> length (history s') = length (history listFormStore) + 1
       | Threw e s' \<Rightarrow> False
       | Cyclic \<Rightarrow> False)"
  by code_simp

section \<open>State store: the objects that a write touches\<close>



lemma values_putProperty: "snd ` set (putProperty kvs k x) \<subseteq> insert x (snd ` set kvs)"
proof (induction kvs)
  case Nil
  then show ?case by simp
next
  case (Cons kv kvs)
  obtain k' y where kv: "kv = (k', y)" by (cases kv)
  show ?case
  proof (cases "k' = k")
    case True
    with kv show ?thesis by auto
  next
    case False
    with kv Cons show ?thesis by auto
  qed
qed

















section \<open>State store: writes that make no cycle\<close>




lemma madeBetween_Made [simp]: "madeBetween n n' (Made j) = (n \<le> j \<and> j < n')"
  by (simp add: madeBetween_def)



section \<open>State store: deep copies\<close>









section \<open>State store: patches and a stored snapshot\<close>


lemma keepsSnapshot_cong:
  "snapshots t' = snapshots t \<Longrightarrow> keepsSnapshot t' sid d = keepsSnapshot t sid d"
  by (simp add: keepsSnapshot_def getSnapshot_def)










section \<open>State store: patches that share objects with the document\<close>









section \<open>State store: snapshots\<close>

lemma map_of_mapSet_same [simp]: "map_of (mapSet kvs k x) k = Some x"
  by (induction kvs) auto









lemma currentState_createSnapshot [simp]:
  "currentState (createSnapshot s sid meta now) = currentState s"
  by (simp add: createSnapshot_def Let_def)





end
